theory Spec2Isabelle
  imports Complex_Main
begin

section \<open>Vectors\<close>

text \<open>
  The programs compute with \<open>THREE.Vector3\<close> objects over JavaScript numbers. The model
  uses exact reals for the numbers, so every statement below is about the arithmetic
  the code asks for, without rounding. The vector operations are the ones of three.js:
  \<open>normalize\<close> divides by \<open>length() || 1\<close>, so the zero vector is returned unchanged.
\<close>

datatype vec3 = Vec3 (vx: real) (vy: real) (vz: real)

definition zero3 :: vec3 where
  "zero3 = Vec3 0 0 0"

definition add :: "vec3 \<Rightarrow> vec3 \<Rightarrow> vec3" where
  "add a b = Vec3 (vx a + vx b) (vy a + vy b) (vz a + vz b)"

definition subVectors :: "vec3 \<Rightarrow> vec3 \<Rightarrow> vec3" where
  "subVectors a b = Vec3 (vx a - vx b) (vy a - vy b) (vz a - vz b)"

definition multiplyScalar :: "vec3 \<Rightarrow> real \<Rightarrow> vec3" where
  "multiplyScalar v s = Vec3 (vx v * s) (vy v * s) (vz v * s)"

definition divideScalar :: "vec3 \<Rightarrow> real \<Rightarrow> vec3" where
  "divideScalar v s = multiplyScalar v (1 / s)"

definition lengthSq :: "vec3 \<Rightarrow> real" where
  "lengthSq v = vx v * vx v + vy v * vy v + vz v * vz v"

definition length3 :: "vec3 \<Rightarrow> real" where
  "length3 v = sqrt (lengthSq v)"

definition normalize :: "vec3 \<Rightarrow> vec3" where
  "normalize v = divideScalar v (if length3 v = 0 then 1 else length3 v)"

definition lerp :: "vec3 \<Rightarrow> vec3 \<Rightarrow> real \<Rightarrow> vec3" where
  "lerp a v alpha =
     Vec3 (vx a + (vx v - vx a) * alpha) (vy a + (vy v - vy a) * alpha)
          (vz a + (vz v - vz a) * alpha)"

definition lerpVectors :: "vec3 \<Rightarrow> vec3 \<Rightarrow> real \<Rightarrow> vec3" where
  "lerpVectors v1 v2 alpha =
     Vec3 (vx v1 + (vx v2 - vx v1) * alpha) (vy v1 + (vy v2 - vy v1) * alpha)
          (vz v1 + (vz v2 - vz v1) * alpha)"

definition addScaledVector :: "vec3 \<Rightarrow> vec3 \<Rightarrow> real \<Rightarrow> vec3" where
  "addScaledVector a v s = Vec3 (vx a + vx v * s) (vy a + vy v * s) (vz a + vz v * s)"

definition distanceToSquared :: "vec3 \<Rightarrow> vec3 \<Rightarrow> real" where
  "distanceToSquared a b = lengthSq (subVectors a b)"

definition distanceTo :: "vec3 \<Rightarrow> vec3 \<Rightarrow> real" where
  "distanceTo a b = sqrt (distanceToSquared a b)"

definition clamp :: "real \<Rightarrow> real \<Rightarrow> real \<Rightarrow> real" where
  "clamp v lo hi = max lo (min hi v)"

section \<open>Axial lookup on a sampled curve (fish.js, getPoint)\<close>

datatype error = TypeError | OutOfRange

text \<open>
  \<open>getPoint\<close> walks the consecutive pairs of the sampled points and returns the
  interpolated point of the first pair whose x-range holds the query. When no pair
  matches, the loop ends and the function returns nothing (\<open>undefined\<close>): the result
  \<open>Inr None\<close>. The function has no \<open>throw\<close>; \<open>Inl\<close> is the result it would have if it
  raised.
\<close>

fun getPoint :: "vec3 list \<Rightarrow> real \<Rightarrow> error + vec3 option" where
  "getPoint (i1 # i2 # rest) x =
     (if x \<ge> vx i1 \<and> x \<le> vx i2
      then Inr (Some (lerpVectors i1 i2 ((x - vx i1) / (vx i2 - vx i1))))
      else getPoint (i2 # rest) x)"
| "getPoint curvePoints x = Inr None"

section \<open>The flock (main.js)\<close>

text \<open>
  One entry of \<open>fishData\<close>. \<open>position\<close> is \<open>mesh.position\<close>; the mesh, its material
  and its orientation are read by the renderer only and are left out.
\<close>

record fish =
  position :: vec3
  velocity :: vec3
  acceleration :: vec3
  mass :: real
  radius :: real

record params =
  fishSpeed :: real
  turnSpeed :: real
  separationDist :: real
  separationStrength :: real

text \<open>
  The globals \<open>fishData\<close> and \<open>targets\<close>. A JavaScript array can have holes, so a slot
  of \<open>targets\<close> is optional (\<open>None\<close> is \<open>undefined\<close>). \<open>rand\<close> holds the values the
  coming calls of \<open>Math.random()\<close> return, in order.
\<close>

record sim =
  fishData :: "fish list"
  targets :: "vec3 option list"
  rand :: "nat \<Rightarrow> real"

definition aqWidth :: real where "aqWidth = 20"
definition aqHeight :: real where "aqHeight = 10"
definition aqDepth :: real where "aqDepth = 16"
definition margin :: real where "margin = 2"
definition halfX :: real where "halfX = aqWidth / 2 - margin"
definition halfY :: real where "halfY = aqHeight / 2 - margin"
definition halfZ :: real where "halfZ = aqDepth / 2 - margin"

definition Math_random :: "sim \<Rightarrow> real \<times> sim" where
  "Math_random s = (rand s 0, s\<lparr>rand := (\<lambda>n. rand s (Suc n))\<rparr>)"

definition randFloat :: "real \<Rightarrow> real \<Rightarrow> sim \<Rightarrow> real \<times> sim" where
  "randFloat low high s = (let (r, s') = Math_random s in (low + r * (high - low), s'))"

definition randFloatSpread :: "real \<Rightarrow> sim \<Rightarrow> real \<times> sim" where
  "randFloatSpread spread s = (let (r, s1) = Math_random s in (spread * (0.5 - r), s1))"

text \<open>\<open>xs[i] = v\<close> on a JavaScript array: a store past the end pads with holes.\<close>

definition store :: "'a option list \<Rightarrow> nat \<Rightarrow> 'a \<Rightarrow> 'a option list" where
  "store xs i v =
     (if i < length xs then xs[i := Some v]
      else xs @ replicate (i - length xs) None @ [Some v])"

definition pickNewTarget :: "nat \<Rightarrow> sim \<Rightarrow> sim" where
  "pickNewTarget i s =
     (let (x, s1) = randFloat (- halfX) halfX s;
          (y, s2) = randFloat (- halfY) halfY s1;
          (z, s3) = randFloat (- halfZ) halfZ s2
      in s3\<lparr>targets := store (targets s3) i (Vec3 x y z)\<rparr>)"

text \<open>
  \<open>updateFishCount\<close>: the first loop pops a fish and a target until at most \<open>count\<close>
  fish are left, the second creates fish until there are \<open>count\<close>. \<open>bsr\<close> is the radius
  of the bounding sphere of the fish geometry, which \<open>createFish\<close> builds.
\<close>

function removeExtra :: "nat \<Rightarrow> sim \<Rightarrow> sim" where
  "removeExtra count s =
     (if length (fishData s) > count
      then removeExtra count
             (s\<lparr>fishData := butlast (fishData s), targets := butlast (targets s)\<rparr>)
      else s)"
  by pat_completeness auto
termination
  by (relation "measure (\<lambda>(count, s). length (fishData s))") auto

definition newFish :: "params \<Rightarrow> real \<Rightarrow> real \<Rightarrow> fish" where
  "newFish p bsr r =
     \<lparr>position = zero3,
      velocity = multiplyScalar (Vec3 1 0 0) (fishSpeed p),
      acceleration = zero3,
      mass = 1.0 + r * 0.2,
      radius = bsr * 0.2\<rparr>"

function addNew :: "params \<Rightarrow> real \<Rightarrow> nat \<Rightarrow> sim \<Rightarrow> sim" where
  "addNew p bsr count s =
     (if length (fishData s) < count
      then let (r, s1) = Math_random s;
               s2 = s1\<lparr>fishData := fishData s1 @ [newFish p bsr r]\<rparr>
           in addNew p bsr count (pickNewTarget (length (fishData s2) - 1) s2)
      else s)"
  by pat_completeness auto
termination
  by (relation "measure (\<lambda>(p, bsr, count, s). count - length (fishData s))")
     (auto simp: Math_random_def pickNewTarget_def randFloat_def Let_def split: prod.splits)

declare removeExtra.simps [simp del] addNew.simps [simp del]

definition updateFishCount :: "params \<Rightarrow> real \<Rightarrow> nat \<Rightarrow> sim \<Rightarrow> sim" where
  "updateFishCount p bsr count s = addNew p bsr count (removeExtra count s)"

subsection \<open>One frame of the animation loop: separation, then steering and walls\<close>

definition separationForce :: "params \<Rightarrow> fish \<Rightarrow> vec3 \<Rightarrow> vec3 \<Rightarrow> vec3" where
  "separationForce p fishA posB acc =
     (let offset = subVectors (position fishA) posB;
          dist = length3 offset;
          minDist = separationDist p
      in if dist > 0 \<and> dist < minDist
         then let k = separationStrength p;
                  forceMag = k * (minDist - dist);
                  force = multiplyScalar (normalize offset) forceMag
              in add acc (divideScalar force (mass fishA))
         else acc)"

text \<open>The inner \<open>forEach\<close> over \<open>fishB\<close>, started from the acceleration reset to zero.\<close>

definition separationOf :: "params \<Rightarrow> fish list \<Rightarrow> nat \<Rightarrow> vec3" where
  "separationOf p fs i =
     fold (\<lambda>j acc. if i = j then acc
                    else separationForce p (fs ! i) (position (fs ! j)) acc)
          [0..<length fs] zero3"

definition separation :: "params \<Rightarrow> fish list \<Rightarrow> fish list" where
  "separation p fs =
     fold (\<lambda>i fs'. fs'[i := (fs' ! i)\<lparr>acceleration := separationOf p fs' i\<rparr>])
          [0..<length fs] fs"

text \<open>
  \<open>applyAxisAngle\<close> is \<open>applyQuaternion\<close> of \<open>setFromAxisAngle\<close>, with three.js's
  formula \<open>v + w t + q \<times> t\<close> for \<open>t = 2 (q \<times> v)\<close>.
\<close>

datatype quaternion = Quaternion (qx: real) (qy: real) (qz: real) (qw: real)

definition setFromAxisAngle :: "vec3 \<Rightarrow> real \<Rightarrow> quaternion" where
  "setFromAxisAngle axis angle =
     (let halfAngle = angle / 2; s = sin halfAngle
      in Quaternion (vx axis * s) (vy axis * s) (vz axis * s) (cos halfAngle))"

definition applyQuaternion :: "vec3 \<Rightarrow> quaternion \<Rightarrow> vec3" where
  "applyQuaternion v q =
     (let tx = 2 * (qy q * vz v - qz q * vy v);
          ty = 2 * (qz q * vx v - qx q * vz v);
          tz = 2 * (qx q * vy v - qy q * vx v)
      in Vec3 (vx v + qw q * tx + qy q * tz - qz q * ty)
              (vy v + qw q * ty + qz q * tx - qx q * tz)
              (vz v + qw q * tz + qx q * ty - qy q * tx))"

definition applyAxisAngle :: "vec3 \<Rightarrow> vec3 \<Rightarrow> real \<Rightarrow> vec3" where
  "applyAxisAngle v axis angle = applyQuaternion v (setFromAxisAngle axis angle)"

text \<open>
  The steering of one fish: the vector that \<open>lerp\<close> produces, and the velocity made of it.
\<close>

definition blend :: "params \<Rightarrow> real \<Rightarrow> vec3 \<Rightarrow> fish \<Rightarrow> vec3" where
  "blend p delta target f =
     (let desiredDir = normalize (subVectors target (position f));
          vel = add (velocity f) (multiplyScalar (acceleration f) delta)
      in lerp (normalize vel) desiredDir (turnSpeed p * delta))"

definition steer :: "params \<Rightarrow> real \<Rightarrow> vec3 \<Rightarrow> fish \<Rightarrow> vec3" where
  "steer p delta target f = multiplyScalar (normalize (blend p delta target f)) (fishSpeed p)"

text \<open>The three wall tests, on (position, velocity, bounced).\<close>

definition bounceX :: "vec3 \<times> vec3 \<times> bool \<Rightarrow> vec3 \<times> vec3 \<times> bool" where
  "bounceX = (\<lambda>(pos, vel, bounced).
     if vx pos < - halfX \<or> vx pos > halfX
     then (Vec3 (clamp (vx pos) (- halfX) halfX) (vy pos) (vz pos),
           Vec3 (vx vel * (- 1)) (vy vel) (vz vel), True)
     else (pos, vel, bounced))"

definition bounceY :: "vec3 \<times> vec3 \<times> bool \<Rightarrow> vec3 \<times> vec3 \<times> bool" where
  "bounceY = (\<lambda>(pos, vel, bounced).
     if vy pos < - halfY \<or> vy pos > halfY
     then (Vec3 (vx pos) (clamp (vy pos) (- halfY) halfY) (vz pos),
           Vec3 (vx vel) (vy vel * (- 1)) (vz vel), True)
     else (pos, vel, bounced))"

definition bounceZ :: "vec3 \<times> vec3 \<times> bool \<Rightarrow> vec3 \<times> vec3 \<times> bool" where
  "bounceZ = (\<lambda>(pos, vel, bounced).
     if vz pos < - halfZ \<or> vz pos > halfZ
     then (Vec3 (vx pos) (vy pos) (clamp (vz pos) (- halfZ) halfZ),
           Vec3 (vx vel) (vy vel) (vz vel * (- 1)), True)
     else (pos, vel, bounced))"

text \<open>The small random turn after a bounce: three random numbers for the axis, one for the angle.\<close>

definition randomTurn :: "vec3 \<Rightarrow> sim \<Rightarrow> vec3 \<times> sim" where
  "randomTurn vel s =
     (let (r1, s1) = Math_random s;
          (r2, s2) = Math_random s1;
          (r3, s3) = Math_random s2;
          (angle, s4) = randFloatSpread (pi / 8) s3
      in (applyAxisAngle vel (normalize (Vec3 r1 r2 r3)) angle, s4))"

text \<open>
  The body of the second \<open>forEach\<close> for the fish of index \<open>i\<close>. Reading \<open>targets[i]\<close>
  where the array has no value makes \<open>subVectors\<close> raise a TypeError.
\<close>

definition moveFish :: "params \<Rightarrow> real \<Rightarrow> nat \<Rightarrow> sim \<Rightarrow> error + sim" where
  "moveFish p delta i s =
     (case (if i < length (targets s) then targets s ! i else None) of
        None \<Rightarrow> Inl TypeError
      | Some target \<Rightarrow>
          let f = fishData s ! i;
              vel = steer p delta target f;
              pos = addScaledVector (position f) vel delta;
              (pos, vel, bounced) = bounceZ (bounceY (bounceX (pos, vel, False)));
              (vel, s1) = (if bounced then randomTurn vel s else (vel, s));
              s2 = s1\<lparr>fishData := (fishData s1)[i := f\<lparr>position := pos, velocity := vel\<rparr>]\<rparr>
          in Inr (if distanceToSquared pos target < 0.25 then pickNewTarget i s2 else s2))"

fun forEachIndex :: "(nat \<Rightarrow> sim \<Rightarrow> error + sim) \<Rightarrow> nat list \<Rightarrow> sim \<Rightarrow> error + sim" where
  "forEachIndex body [] s = Inr s"
| "forEachIndex body (i # rest) s =
     (case body i s of Inl e \<Rightarrow> Inl e | Inr s' \<Rightarrow> forEachIndex body rest s')"

definition flockTick :: "params \<Rightarrow> real \<Rightarrow> sim \<Rightarrow> error + sim" where
  "flockTick p delta s =
     (let s1 = s\<lparr>fishData := separation p (fishData s)\<rparr>
      in forEachIndex (moveFish p delta) [0..<length (fishData s1)] s1)"

text \<open>
  What happens to the flock over time: the GUI sets the number of fish, or a frame is
  drawn. Each event carries the values \<open>Math.random()\<close> returns while it runs.
\<close>

datatype event = SetCount nat "nat \<Rightarrow> real" | Frame real "nat \<Rightarrow> real"

fun runEvents :: "params \<Rightarrow> real \<Rightarrow> event list \<Rightarrow> sim \<Rightarrow> error + sim" where
  "runEvents p bsr [] s = Inr s"
| "runEvents p bsr (SetCount count rnd # rest) s =
     runEvents p bsr rest (updateFishCount p bsr count (s\<lparr>rand := rnd\<rparr>))"
| "runEvents p bsr (Frame delta rnd # rest) s =
     (case flockTick p delta (s\<lparr>rand := rnd\<rparr>) of
        Inl e \<Rightarrow> Inl e
      | Inr s' \<Rightarrow> runEvents p bsr rest s')"

text \<open>The \<open>params\<close> object as main.js creates it.\<close>

definition defaultParams :: params where
  "defaultParams = \<lparr>fishSpeed = 2, turnSpeed = 1.5, separationDist = 1.0, separationStrength = 2.0\<rparr>"

definition initial :: sim where
  "initial = \<lparr>fishData = [], targets = [], rand = (\<lambda>n. 0)\<rparr>"

definition inBounds :: "vec3 \<Rightarrow> bool" where
  "inBounds pos \<longleftrightarrow>
     - halfX \<le> vx pos \<and> vx pos \<le> halfX \<and> - halfY \<le> vy pos \<and> vy pos \<le> halfY
     \<and> - halfZ \<le> vz pos \<and> vz pos \<le> halfZ"

definition consistent :: "sim \<Rightarrow> bool" where
  "consistent s \<longleftrightarrow>
     length (targets s) = length (fishData s) \<and> (\<forall>t \<in> set (targets s). t \<noteq> None)"

text \<open>
  The state \<open>s'\<close> reached when the second \<open>forEach\<close> has handled the fish below
  index \<open>n\<close>, started in \<open>s1\<close>: the fish and targets from \<open>n\<close> on are untouched, the
  fish below \<open>n\<close> are inside the bounds and have the speed the steering gave them.
\<close>

definition moved :: "params \<Rightarrow> real \<Rightarrow> sim \<Rightarrow> nat \<Rightarrow> sim \<Rightarrow> bool" where
  "moved p delta s1 n s' \<longleftrightarrow>
     consistent s' \<and> length (fishData s') = length (fishData s1)
     \<and> (\<forall>j. n \<le> j \<longrightarrow> fishData s' ! j = fishData s1 ! j \<and> targets s' ! j = targets s1 ! j)
     \<and> (\<forall>j<n. inBounds (position (fishData s' ! j))
            \<and> length3 (velocity (fishData s' ! j))
                = length3 (steer p delta (the (targets s1 ! j)) (fishData s1 ! j)))"

section \<open>The water surface (main.js)\<close>

text \<open>
  The two parallel arrays \<open>waterHeights\<close> and \<open>waterVelocities\<close>, arrays of rows, all
  zero at the start.
\<close>

definition WATER_RES_X :: nat where "WATER_RES_X = 64"

definition WATER_RES_Z :: nat where "WATER_RES_Z = 64"

definition WAVE_SPEED :: real where "WAVE_SPEED = 2.0"

definition DAMPING :: real where "DAMPING = 0.995"

record water =
  waterHeights :: "real list list"
  waterVelocities :: "real list list"

definition stillWater :: water where
  "stillWater = \<lparr>waterHeights = replicate WATER_RES_X (replicate WATER_RES_Z 0),
           waterVelocities = replicate WATER_RES_X (replicate WATER_RES_Z 0)\<rparr>"

text \<open>\<open>g[x][z] = v\<close>.\<close>

definition setAt :: "real list list \<Rightarrow> nat \<Rightarrow> nat \<Rightarrow> real \<Rightarrow> real list list" where
  "setAt g x z v = g[x := (g ! x)[z := v]]"

text \<open>
  The body of the inner loop of \<open>updateWaterPhysics\<close>: it reads the four neighbours in
  the heights array as it is now, then writes the cell's velocity (twice) and height.
  Over the reals no product of non-zero numbers is zero; in doubles a small enough one is.
\<close>

definition cellStep :: "real \<Rightarrow> nat \<Rightarrow> nat \<Rightarrow> water \<Rightarrow> water" where
  "cellStep delta x z w =
     (let H = waterHeights w; V = waterVelocities w;
          laplacian = (H ! (x - 1) ! z + H ! (x + 1) ! z + H ! x ! (z - 1) + H ! x ! (z + 1)) / 4
                      - H ! x ! z;
          V1 = setAt V x z (V ! x ! z + laplacian * WAVE_SPEED * delta);
          V2 = setAt V1 x z (V1 ! x ! z * DAMPING);
          H1 = setAt H x z (H ! x ! z + V2 ! x ! z * delta)
      in w\<lparr>waterHeights := H1, waterVelocities := V2\<rparr>)"

text \<open>The two loops, \<open>x\<close> outside and \<open>z\<close> inside, over the interior cells in ascending order.\<close>

definition updateWaterPhysics :: "real \<Rightarrow> water \<Rightarrow> water" where
  "updateWaterPhysics delta w =
     fold (\<lambda>x. fold (cellStep delta x) [1..<WATER_RES_Z - 1]) [1..<WATER_RES_X - 1] w"

text \<open>
  \<open>disturbWater\<close>, with the conversion of a world coordinate to a grid index. The index
  is the floor of the exact value; in doubles a world coordinate within rounding of a cell
  border can give the index of the next cell.
\<close>

definition gridIndex :: "real \<Rightarrow> real \<Rightarrow> nat \<Rightarrow> int" where
  "gridIndex world extent res = \<lfloor>(world / extent + 0.5) * real res\<rfloor>"

definition disturbWater :: "real \<Rightarrow> real \<Rightarrow> real \<Rightarrow> water \<Rightarrow> water" where
  "disturbWater worldX worldZ strength w =
     (let ix = gridIndex worldX aqWidth WATER_RES_X;
          iz = gridIndex worldZ aqDepth WATER_RES_Z
      in if ix > 0 \<and> ix < int WATER_RES_X - 1 \<and> iz > 0 \<and> iz < int WATER_RES_Z - 1
         then w\<lparr>waterVelocities :=
                  setAt (waterVelocities w) (nat ix) (nat iz)
                    (waterVelocities w ! nat ix ! nat iz + strength)\<rparr>
         else w)"

text \<open>The assignment \<open>waterVelocities[ix][iz] += strength\<close> of \<open>disturbWater\<close>, on its own.\<close>

definition disturbCell :: "nat \<Rightarrow> nat \<Rightarrow> real \<Rightarrow> water \<Rightarrow> water" where
  "disturbCell ix iz strength w =
     w\<lparr>waterVelocities := setAt (waterVelocities w) ix iz (waterVelocities w ! ix ! iz + strength)\<rparr>"

text \<open>
  For comparison, the synchronous step that C9 speaks of, written from the claim's words:
  every cell's Laplacian is computed from the heights \<open>w0\<close> of the previous tick only.
\<close>

definition cellStepSync :: "real \<Rightarrow> water \<Rightarrow> nat \<Rightarrow> nat \<Rightarrow> water \<Rightarrow> water" where
  "cellStepSync delta w0 x z w =
     (let H0 = waterHeights w0; H = waterHeights w; V = waterVelocities w;
          laplacian = (H0 ! (x - 1) ! z + H0 ! (x + 1) ! z + H0 ! x ! (z - 1) + H0 ! x ! (z + 1)) / 4
                      - H0 ! x ! z;
          V1 = setAt V x z (V ! x ! z + laplacian * WAVE_SPEED * delta);
          V2 = setAt V1 x z (V1 ! x ! z * DAMPING);
          H1 = setAt H x z (H ! x ! z + V2 ! x ! z * delta)
      in w\<lparr>waterHeights := H1, waterVelocities := V2\<rparr>)"

definition updateWaterPhysicsSync :: "real \<Rightarrow> water \<Rightarrow> water" where
  "updateWaterPhysicsSync delta w =
     fold (\<lambda>x. fold (cellStepSync delta w x) [1..<WATER_RES_Z - 1]) [1..<WATER_RES_X - 1] w"

text \<open>A grid has \<open>WATER_RES_X\<close> rows of \<open>WATER_RES_Z\<close> numbers.\<close>

definition grid :: "real list list \<Rightarrow> bool" where
  "grid g \<longleftrightarrow> length g = WATER_RES_X \<and> list_all (\<lambda>row. length row = WATER_RES_Z) g"

definition wellFormed :: "water \<Rightarrow> bool" where
  "wellFormed w \<longleftrightarrow> grid (waterHeights w) \<and> grid (waterVelocities w)"

definition heightAt :: "water \<Rightarrow> nat \<Rightarrow> nat \<Rightarrow> real" where
  "heightAt w i j = waterHeights w ! i ! j"

definition velocityAt :: "water \<Rightarrow> nat \<Rightarrow> nat \<Rightarrow> real" where
  "velocityAt w i j = waterVelocities w ! i ! j"

definition interior :: "nat \<Rightarrow> nat \<Rightarrow> bool" where
  "interior i j \<longleftrightarrow> 1 \<le> i \<and> i < WATER_RES_X - 1 \<and> 1 \<le> j \<and> j < WATER_RES_Z - 1"

text \<open>The cells the loops have handled when they reach the cell \<open>(x, z)\<close>.\<close>

definition handled :: "nat \<Rightarrow> nat \<Rightarrow> nat \<Rightarrow> nat \<Rightarrow> bool" where
  "handled x z i j \<longleftrightarrow> interior i j \<and> (i < x \<or> (i = x \<and> j < z))"

text \<open>
  The velocity the step gives the cell \<open>(x, z)\<close>, when the neighbours before it in the
  loop order are read in \<open>w'\<close> and the ones after it in \<open>w\<close>.
\<close>

definition newVel :: "real \<Rightarrow> water \<Rightarrow> water \<Rightarrow> nat \<Rightarrow> nat \<Rightarrow> real" where
  "newVel delta w w' x z =
     (velocityAt w x z + ((heightAt w' (x - 1) z + heightAt w (x + 1) z + heightAt w' x (z - 1) + heightAt w x (z + 1)) / 4
                    - heightAt w x z) * WAVE_SPEED * delta) * DAMPING"

text \<open>
  The state \<open>w'\<close> when the loops, started in \<open>w\<close>, reach the cell \<open>(x, z)\<close>: handled
  cells have their new values, the others are untouched.
\<close>

definition reached :: "real \<Rightarrow> water \<Rightarrow> nat \<Rightarrow> nat \<Rightarrow> water \<Rightarrow> bool" where
  "reached delta w x z w' \<longleftrightarrow>
     wellFormed w'
     \<and> (\<forall>i j. (handled x z i j \<longrightarrow>
                  velocityAt w' i j = newVel delta w w' i j
                  \<and> heightAt w' i j = heightAt w i j + newVel delta w w' i j * delta)
              \<and> (\<not> handled x z i j \<longrightarrow> velocityAt w' i j = velocityAt w i j \<and> heightAt w' i j = heightAt w i j))"

text \<open>The interior cells at or after \<open>(x0, z0)\<close> on both axes.\<close>

definition quadrant :: "nat \<Rightarrow> nat \<Rightarrow> nat \<Rightarrow> nat \<Rightarrow> bool" where
  "quadrant x0 z0 i j \<longleftrightarrow> interior i j \<and> x0 \<le> i \<and> z0 \<le> j"

definition reachedSync :: "real \<Rightarrow> water \<Rightarrow> nat \<Rightarrow> nat \<Rightarrow> water \<Rightarrow> bool" where
  "reachedSync delta w x z w' \<longleftrightarrow>
     wellFormed w'
     \<and> (\<forall>i j. (handled x z i j \<longrightarrow>
                  velocityAt w' i j = newVel delta w w i j
                  \<and> heightAt w' i j = heightAt w i j + newVel delta w w i j * delta)
              \<and> (\<not> handled x z i j \<longrightarrow> velocityAt w' i j = velocityAt w i j \<and> heightAt w' i j = heightAt w i j))"

section \<open>The kelp chains (src/unnamed/part_000, the variant of main.js with sea plants)\<close>

text \<open>
  A kelp plant of \<open>seaPlants\<close>: its anchor, its chain of points and their velocities. The
  mesh built from the points is left out.
\<close>

record plant =
  base :: vec3
  points :: "vec3 list"
  velocities :: "vec3 list"

definition SEGMENTS :: nat where "SEGMENTS = 12"

definition PLANT_LEN :: real where "PLANT_LEN = 2.5"

definition kelpSpring :: real where "kelpSpring = 60"

definition kelpDamping :: real where "kelpDamping = 7.2"

definition jointLength :: real where "jointLength = PLANT_LEN / (real SEGMENTS - 1)"

text \<open>The plant \<open>addSeaPlants\<close> creates at an anchor: a straight chain upwards, at rest.\<close>

definition newPlant :: "vec3 \<Rightarrow> plant" where
  "newPlant b =
     \<lparr>base = b,
      points = map (\<lambda>j. Vec3 (vx b) (vy b + (real j / (real SEGMENTS - 1)) * PLANT_LEN) (vz b))
                   [0..<SEGMENTS],
      velocities = replicate SEGMENTS (Vec3 0 0 0)\<rparr>"

text \<open>
  What the clocks return during the spring loop of one plant: in the iteration for the
  point \<open>j\<close>, \<open>performance.now()\<close> returns \<open>nowAt j\<close> and the two calls of
  \<open>clock.getDelta()\<close> return \<open>springDelta j\<close> and \<open>dampDelta j\<close>.
\<close>

record clocks =
  nowAt :: "nat \<Rightarrow> real"
  springDelta :: "nat \<Rightarrow> real"
  dampDelta :: "nat \<Rightarrow> real"

definition setY :: "vec3 \<Rightarrow> real \<Rightarrow> vec3" where
  "setY v y = Vec3 (vx v) y (vz v)"

text \<open>Step 2: a fish closer than 0.55 to the point \<open>j\<close> pushes it away and up.\<close>

definition pushPoint :: "vec3 \<Rightarrow> nat \<Rightarrow> plant \<Rightarrow> plant" where
  "pushPoint fishPos j pl =
     (let dist = distanceTo (points pl ! j) fishPos
      in if dist < 0.55
         then let push = multiplyScalar
                           (normalize (setY (subVectors (points pl ! j) fishPos) 0)) 0.09
              in pl\<lparr>velocities := (velocities pl)[j := add (velocities pl ! j) (setY push 0.04)]\<rparr>
         else pl)"

text \<open>Step 3: the spring toward the swaying target above the previous point, damping, and the move.\<close>

definition springPoint :: "clocks \<Rightarrow> nat \<Rightarrow> plant \<Rightarrow> plant" where
  "springPoint c j pl =
     (let t = real j / (real SEGMENTS - 1);
          sway = sin (nowAt c j * 0.0007 + vx (base pl) * 0.2 + t * 2.2) * 0.0002 * (0.5 + t);
          prev = points pl ! (j - 1);
          curr = points pl ! j;
          target = add prev (applyAxisAngle (Vec3 sway jointLength 0) (Vec3 0 1 0) (sway * 2));
          diff = subVectors target curr;
          v1 = add (velocities pl ! j) (multiplyScalar diff (kelpSpring * springDelta c j));
          v2 = multiplyScalar v1 (exp (- kelpDamping * dampDelta c j))
      in pl\<lparr>velocities := (velocities pl)[j := v2], points := (points pl)[j := add curr v2]\<rparr>)"

text \<open>Step 4, the length constraint pass.\<close>

definition constrainPoint :: "nat \<Rightarrow> plant \<Rightarrow> plant" where
  "constrainPoint j pl =
     (let prev = points pl ! (j - 1);
          curr = points pl ! j;
          dir = normalize (subVectors curr prev)
      in pl\<lparr>points := (points pl)[j := add prev (multiplyScalar dir jointLength)]\<rparr>)"

text \<open>
  One frame for one plant, with the positions of the fish: steps 1 to 3 (\<open>springPass\<close>),
  then the constraint pass. A plant with fewer than \<open>SEGMENTS\<close> points or velocities
  makes the loops read \<open>undefined\<close>, a TypeError.
\<close>

definition springPass :: "clocks \<Rightarrow> vec3 list \<Rightarrow> plant \<Rightarrow> plant" where
  "springPass c fishPositions pl =
     (let pl1 = pl\<lparr>points := (points pl)[0 := base pl],
                   velocities := (velocities pl)[0 := Vec3 0 0 0]\<rparr>;
          pl2 = fold (\<lambda>fishPos. fold (pushPoint fishPos) [1..<SEGMENTS]) fishPositions pl1
      in fold (springPoint c) [1..<SEGMENTS] pl2)"

definition lengthConstraint :: "plant \<Rightarrow> plant" where
  "lengthConstraint pl = fold constrainPoint [1..<SEGMENTS] pl"

definition kelpTick :: "clocks \<Rightarrow> vec3 list \<Rightarrow> plant \<Rightarrow> error + plant" where
  "kelpTick c fishPositions pl =
     (if length (points pl) < SEGMENTS \<or> length (velocities pl) < SEGMENTS then Inl TypeError
      else Inr (lengthConstraint (springPass c fishPositions pl)))"

text \<open>
  A plant whose second segment lies level and whose third point moves toward the second
  at one joint length per frame; every joint of it has the joint length. It serves to
  show the degenerate case of the constraint pass, and is not a state that
  \<open>addSeaPlants\<close> creates.
\<close>

definition bentPlant :: plant where
  "bentPlant =
     \<lparr>base = Vec3 0 0 0,
      points = [Vec3 0 0 0, Vec3 0 jointLength 0, Vec3 jointLength jointLength 0,
                Vec3 jointLength (2 * jointLength) 0, Vec3 jointLength (3 * jointLength) 0,
                Vec3 jointLength (4 * jointLength) 0, Vec3 jointLength (5 * jointLength) 0,
                Vec3 jointLength (6 * jointLength) 0, Vec3 jointLength (7 * jointLength) 0,
                Vec3 jointLength (8 * jointLength) 0, Vec3 jointLength (9 * jointLength) 0,
                Vec3 jointLength (10 * jointLength) 0],
      velocities = [Vec3 0 0 0, Vec3 0 0 0, Vec3 (- jointLength) 0 0, Vec3 0 0 0, Vec3 0 0 0,
                    Vec3 0 0 0, Vec3 0 0 0, Vec3 0 0 0, Vec3 0 0 0, Vec3 0 0 0, Vec3 0 0 0,
                    Vec3 0 0 0]\<rparr>"

definition stillClocks :: clocks where
  "stillClocks = \<lparr>nowAt = (\<lambda>j. 0), springDelta = (\<lambda>j. 0), dampDelta = (\<lambda>j. 0)\<rparr>"

section \<open>The shaping curves and their sampler (three.js, used by fish.js)\<close>

text \<open>
  The shaping curves are \<open>THREE.CatmullRomCurve3\<close> objects and the sampler is
  \<open>getSpacedPoints\<close>, both of the three.js library, which fish.js imports. They are
  modelled after the library: \<open>getPoint\<close> of \<open>CatmullRomCurve3\<close> with the default
  centripetal parametrization, and \<open>getLengths\<close>, \<open>getUtoTmapping\<close>, \<open>getPointAt\<close> and
  \<open>getSpacedPoints\<close> of \<open>Curve\<close>. Reading an array slot that does not exist gives
  \<open>undefined\<close>, and the vector operations raise a TypeError on it.
\<close>

record curve =
  curvePoints :: "vec3 list"
  closed :: bool

definition arcLengthDivisions :: nat where "arcLengthDivisions = 200"

definition bindE :: "error + 'a \<Rightarrow> ('a \<Rightarrow> error + 'b) \<Rightarrow> error + 'b" where
  "bindE r f = (case r of Inl e \<Rightarrow> Inl e | Inr x \<Rightarrow> f x)"

definition pointAt :: "vec3 list \<Rightarrow> int \<Rightarrow> error + vec3" where
  "pointAt ps i = (if 0 \<le> i \<and> i < int (length ps) then Inr (ps ! nat i) else Inl TypeError)"

text \<open>The remainder \<open>a % b\<close> of JavaScript has the sign of \<open>a\<close>.\<close>

definition jsRem :: "int \<Rightarrow> int \<Rightarrow> int" where
  "jsRem a b = sgn a * (\<bar>a\<bar> mod \<bar>b\<bar>)"

text \<open>\<open>CubicPoly\<close>: the coefficients set by \<open>init\<close>, and \<open>calc\<close>.\<close>

record cubicPoly =
  c0 :: real
  c1 :: real
  c2 :: real
  c3 :: real

definition init :: "real \<Rightarrow> real \<Rightarrow> real \<Rightarrow> real \<Rightarrow> cubicPoly" where
  "init x0 x1 t0 t1 =
     \<lparr>c0 = x0, c1 = t0, c2 = - 3 * x0 + 3 * x1 - 2 * t0 - t1, c3 = 2 * x0 - 2 * x1 + t0 + t1\<rparr>"

definition initNonuniformCatmullRom ::
  "real \<Rightarrow> real \<Rightarrow> real \<Rightarrow> real \<Rightarrow> real \<Rightarrow> real \<Rightarrow> real \<Rightarrow> cubicPoly" where
  "initNonuniformCatmullRom x0 x1 x2 x3 dt0 dt1 dt2 =
     (let t1 = (x1 - x0) / dt0 - (x2 - x0) / (dt0 + dt1) + (x2 - x1) / dt1;
          t2 = (x2 - x1) / dt1 - (x3 - x1) / (dt1 + dt2) + (x3 - x2) / dt2
      in init x1 x2 (t1 * dt1) (t2 * dt1))"

definition calc :: "cubicPoly \<Rightarrow> real \<Rightarrow> real" where
  "calc poly t = (let t2 = t * t; t3 = t2 * t in c0 poly + c1 poly * t + c2 poly * t2 + c3 poly * t3)"

text \<open>The centripetal segment between \<open>p1\<close> and \<open>p2\<close>, at \<open>weight\<close>.\<close>

definition segmentPoint :: "vec3 \<Rightarrow> vec3 \<Rightarrow> vec3 \<Rightarrow> vec3 \<Rightarrow> real \<Rightarrow> vec3" where
  "segmentPoint p0 p1 p2 p3 weight =
     (let dt0 = distanceToSquared p0 p1 powr 0.25;
          dt1 = distanceToSquared p1 p2 powr 0.25;
          dt2 = distanceToSquared p2 p3 powr 0.25;
          dt1 = (if dt1 < 0.0001 then 1.0 else dt1);
          dt0 = (if dt0 < 0.0001 then dt1 else dt0);
          dt2 = (if dt2 < 0.0001 then dt1 else dt2);
          px = initNonuniformCatmullRom (vx p0) (vx p1) (vx p2) (vx p3) dt0 dt1 dt2;
          py = initNonuniformCatmullRom (vy p0) (vy p1) (vy p2) (vy p3) dt0 dt1 dt2;
          pz = initNonuniformCatmullRom (vz p0) (vz p1) (vz p2) (vz p3) dt0 dt1 dt2
      in Vec3 (calc px weight) (calc py weight) (calc pz weight))"

text \<open>
  \<open>getPoint\<close> of \<open>CatmullRomCurve3\<close>, in two parts: the index of the segment and the
  weight inside it that the method computes from \<open>t\<close>, and the point built from them.
  The point before an open curve's first segment and the point after its last one are
  extrapolated into one shared temporary vector: when both are extrapolated (an open curve
  of two points), the first is overwritten by the second.
\<close>

definition locate :: "curve \<Rightarrow> real \<Rightarrow> int \<times> real" where
  "locate c t =
     (let l = int (length (curvePoints c));
          p = real_of_int (l - (if closed c then 0 else 1)) * t;
          intPoint = \<lfloor>p\<rfloor>;
          weight = p - real_of_int intPoint
      in if closed c
         then (intPoint + (if intPoint > 0 then 0
                           else (\<lfloor>real_of_int \<bar>intPoint\<bar> / real_of_int l\<rfloor> + 1) * l),
               weight)
         else if weight = 0 \<and> intPoint = l - 1 then (l - 2, 1)
         else (intPoint, weight))"

definition getPointOnCurve :: "curve \<Rightarrow> real \<Rightarrow> error + vec3" where
  "getPointOnCurve c t =
     (let ps = curvePoints c;
          l = int (length ps);
          intPoint = fst (locate c t);
          weight = snd (locate c t);
          firstGiven = (closed c \<or> intPoint > 0);
          lastGiven = (closed c \<or> intPoint + 2 < l)
      in bindE (if firstGiven then pointAt ps (jsRem (intPoint - 1) l)
                else bindE (pointAt ps 0) (\<lambda>a. bindE (pointAt ps 1) (\<lambda>b.
                       Inr (add (subVectors a b) a))))
           (\<lambda>tmp0. bindE (pointAt ps (jsRem intPoint l))
           (\<lambda>p1. bindE (pointAt ps (jsRem (intPoint + 1) l))
           (\<lambda>p2. bindE (if lastGiven then pointAt ps (jsRem (intPoint + 2) l)
                         else bindE (pointAt ps (l - 1)) (\<lambda>a. bindE (pointAt ps (l - 2)) (\<lambda>b.
                                Inr (add (subVectors a b) a))))
           (\<lambda>p3. let p0 = (if \<not> firstGiven \<and> \<not> lastGiven then p3 else tmp0)
                  in Inr (segmentPoint p0 p1 p2 p3 weight))))))"

text \<open>\<open>getLengths\<close>: the running length of the polyline through 201 points of the curve.\<close>

fun lengthsLoop :: "curve \<Rightarrow> nat list \<Rightarrow> vec3 \<Rightarrow> real \<Rightarrow> real list \<Rightarrow> error + real list" where
  "lengthsLoop c [] lastPoint acc cache = Inr cache"
| "lengthsLoop c (p # others) lastPoint acc cache =
     bindE (getPointOnCurve c (real p / real arcLengthDivisions))
       (\<lambda>current. lengthsLoop c others current (acc + distanceTo current lastPoint)
                     (cache @ [acc + distanceTo current lastPoint]))"

definition getLengths :: "curve \<Rightarrow> error + real list" where
  "getLengths c =
     bindE (getPointOnCurve c 0)
       (\<lambda>lastPoint. lengthsLoop c [1..<arcLengthDivisions + 1] lastPoint 0 [0])"

text \<open>
  The binary search of \<open>getUtoTmapping\<close>, which ends with the index \<open>high\<close>. The indices
  it probes lie between \<open>low\<close> and \<open>high\<close>.
\<close>

function search :: "real list \<Rightarrow> real \<Rightarrow> int \<Rightarrow> int \<Rightarrow> int" where
  "search arcLengths target low high =
     (if low \<le> high
      then let i = \<lfloor>real_of_int low + real_of_int (high - low) / 2\<rfloor>;
               comparison = arcLengths ! nat i - target
           in if comparison < 0 then search arcLengths target (i + 1) high
              else if comparison > 0 then search arcLengths target low (i - 1)
              else i
      else high)"
  by pat_completeness auto

termination
proof (relation "measure (\<lambda>(a, t, low, high). nat (high - low + 1))")
  show "wf (measure (\<lambda>(a, t, low, high). nat (high - low + 1)))" by simp
next
  fix arcLengths :: "real list" and target :: real and low high :: int and x xa
  assume "low \<le> high" "x = \<lfloor>real_of_int low + real_of_int (high - low) / 2\<rfloor>"
  moreover have "\<lfloor>real_of_int (high - low) / 2\<rfloor> = (high - low) div 2"
    using floor_divide_of_int_eq [of "high - low" 2] by simp
  ultimately have "x = low + (high - low) div 2" by simp
  with \<open>low \<le> high\<close> have "low \<le> x" "x \<le> high" by simp_all
  then show "((arcLengths, target, x + 1, high), (arcLengths, target, low, high))
      \<in> measure (\<lambda>(a, t, low, high). nat (high - low + 1))"
    by simp
next
  fix arcLengths :: "real list" and target :: real and low high :: int and x xa
  assume "low \<le> high" "x = \<lfloor>real_of_int low + real_of_int (high - low) / 2\<rfloor>"
  moreover have "\<lfloor>real_of_int (high - low) / 2\<rfloor> = (high - low) div 2"
    using floor_divide_of_int_eq [of "high - low" 2] by simp
  ultimately have "x = low + (high - low) div 2" by simp
  with \<open>low \<le> high\<close> have "low \<le> x" "x \<le> high" by simp_all
  then show "((arcLengths, target, low, x - 1), (arcLengths, target, low, high))
      \<in> measure (\<lambda>(a, t, low, high). nat (high - low + 1))"
    by simp
qed

declare search.simps [simp del]

text \<open>
  \<open>getUtoTmapping\<close>. When the search ends outside the table, the interpolation reads
  \<open>undefined\<close> and the result is NaN, with which \<open>getPoint\<close> raises a TypeError; the
  model raises it here.
\<close>

definition getUtoTmapping :: "curve \<Rightarrow> real \<Rightarrow> error + real" where
  "getUtoTmapping c u =
     bindE (getLengths c)
       (\<lambda>arcLengths.
          let il = int (length arcLengths);
              targetArcLength = u * arcLengths ! nat (il - 1);
              i = search arcLengths targetArcLength 0 (il - 1)
          in if i < 0 \<or> il \<le> i then Inl TypeError
             else if arcLengths ! nat i = targetArcLength
             then Inr (real_of_int i / real_of_int (il - 1))
             else if il \<le> i + 1 then Inl TypeError
             else let lengthBefore = arcLengths ! nat i;
                      lengthAfter = arcLengths ! nat (i + 1);
                      segmentLength = lengthAfter - lengthBefore;
                      segmentFraction = (targetArcLength - lengthBefore) / segmentLength
                  in Inr ((real_of_int i + segmentFraction) / real_of_int (il - 1)))"

definition getPointAt :: "curve \<Rightarrow> real \<Rightarrow> error + vec3" where
  "getPointAt c u = bindE (getUtoTmapping c u) (getPointOnCurve c)"

fun collect :: "(nat \<Rightarrow> error + 'a) \<Rightarrow> nat list \<Rightarrow> error + 'a list" where
  "collect f [] = Inr []"
| "collect f (d # others) = bindE (f d) (\<lambda>p. bindE (collect f others) (\<lambda>ps. Inr (p # ps)))"

text \<open>
  \<open>getSpacedPoints(divisions)\<close>: the loop runs for \<open>d = 0, \<dots>, divisions\<close>, both ends
  included. With \<open>divisions = 0\<close> the parameter \<open>0 / 0\<close> is NaN, a TypeError as above.
\<close>

definition getSpacedPoints :: "curve \<Rightarrow> nat \<Rightarrow> error + vec3 list" where
  "getSpacedPoints c divisions =
     (if divisions = 0 then Inl TypeError
      else collect (\<lambda>d. getPointAt c (real d / real divisions)) [0..<divisions + 1])"

text \<open>The curve \<open>topCurve\<close> of \<open>createFishGeometry\<close>.\<close>

definition topCurve :: curve where
  "topCurve =
     \<lparr>curvePoints = [Vec3 0 0 0, Vec3 0.1 0.15 0, Vec3 1 0.75 0, Vec3 3.5 1.5 0, Vec3 9 0.5 0,
                      Vec3 9.5 0.45 0, Vec3 10 0.55 0],
      closed = False\<rparr>"

text \<open>
  The points that \<open>getLengths\<close> measures, the distances between consecutive ones, and
  the running length up to the point \<open>k\<close>.
\<close>

definition curvePt :: "curve \<Rightarrow> nat \<Rightarrow> vec3" where
  "curvePt c k = projr (getPointOnCurve c (real k / real arcLengthDivisions))"

definition stepLen :: "curve \<Rightarrow> nat \<Rightarrow> real" where
  "stepLen c m = distanceTo (curvePt c m) (curvePt c (m - 1))"

definition arcLen :: "curve \<Rightarrow> nat \<Rightarrow> real" where
  "arcLen c k = (\<Sum>m = 1..k. stepLen c m)"

text \<open>
  What the binary search returns on a non-decreasing table, the entries below \<open>low\<close>
  being smaller and the entries above \<open>high\<close> larger than the target.
\<close>

definition found :: "real list \<Rightarrow> real \<Rightarrow> int \<Rightarrow> bool" where
  "found a t i \<longleftrightarrow>
     - 1 \<le> i \<and> i < int (length a)
     \<and> ((0 \<le> i \<and> a ! nat i = t)
        \<or> ((0 \<le> i \<longrightarrow> a ! nat i < t) \<and> (i + 1 < int (length a) \<longrightarrow> t < a ! nat (i + 1))))"

section \<open>The mesh assembly (fish.js)\<close>

text \<open>
  A buffer geometry, as far as the mesh assembly goes: the \<open>position\<close> attribute (one
  vector per vertex), the \<open>parts\<close> attribute and the index. The vertex count of a
  geometry is the length of \<open>positions\<close>. Normals and texture coordinates are left out.
\<close>

record geometry =
  positions :: "vec3 list"
  parts :: "nat list"
  index :: "nat list"

definition divisions :: nat where "divisions = 200"

definition tailfinSlices :: nat where "tailfinSlices = 5"

text \<open>
  The index that \<open>PlaneGeometry(1, 1, gridX, gridY)\<close> of three.js builds: two triangles
  \<open>(a, b, d)\<close> and \<open>(b, c, d)\<close> for each cell, row by row.
\<close>

definition planeIndex :: "nat \<Rightarrow> nat \<Rightarrow> nat list" where
  "planeIndex gridX gridY =
     concat (map (\<lambda>iy. concat (map (\<lambda>ix.
       (let gridX1 = gridX + 1;
            a = ix + gridX1 * iy;
            b = ix + gridX1 * (iy + 1);
            c = (ix + 1) + gridX1 * (iy + 1);
            d = (ix + 1) + gridX1 * iy
        in [a, b, d, b, c, d])) [0..<gridX])) [0..<gridY])"

text \<open>A plane geometry whose \<open>position\<close> and \<open>parts\<close> attributes have been replaced.\<close>

definition planeWith :: "nat \<Rightarrow> nat \<Rightarrow> vec3 list \<Rightarrow> nat \<Rightarrow> geometry" where
  "planeWith gridX gridY pts part =
     \<lparr>positions = pts, parts = replicate (length pts) part, index = planeIndex gridX gridY\<rparr>"

text \<open>Using \<open>undefined\<close> where a vector is needed raises a TypeError.\<close>

definition defined :: "error + 'a option \<Rightarrow> error + 'a" where
  "defined r = (case r of Inl e \<Rightarrow> Inl e | Inr None \<Rightarrow> Inl TypeError | Inr (Some v) \<Rightarrow> Inr v)"

definition nthOrUndefined :: "'a list \<Rightarrow> nat \<Rightarrow> error + 'a option" where
  "nthOrUndefined xs i = Inr (if i < length xs then Some (xs ! i) else None)"

definition setZ :: "vec3 \<Rightarrow> real \<Rightarrow> vec3" where
  "setZ v z = Vec3 (vx v) (vy v) z"

text \<open>\<open>getFramePoints\<close>, \<open>getFrame\<close> and \<open>computeFrames\<close>.\<close>

definition getFramePoints :: "vec3 \<Rightarrow> vec3 \<Rightarrow> vec3 \<Rightarrow> error + vec3 list" where
  "getFramePoints topPt bottomPt sidePt =
     (let sideR = sidePt;
          sideL = setZ sideR (vz sideR * (- 1));
          baseCurve = \<lparr>curvePoints = [bottomPt, sideR, topPt, sideL], closed = True\<rparr>
      in getSpacedPoints baseCurve divisions)"

definition getFrame :: "vec3 list \<Rightarrow> vec3 list \<Rightarrow> vec3 list \<Rightarrow> real \<Rightarrow> error + vec3 list" where
  "getFrame topPoints bottomPoints sidePoints x =
     bindE (defined (getPoint topPoints x)) (\<lambda>topPt.
     bindE (defined (getPoint bottomPoints x)) (\<lambda>bottomPt.
     bindE (defined (getPoint sidePoints x)) (\<lambda>sidePt.
       getFramePoints topPt bottomPt sidePt)))"

text \<open>
  The loop \<open>for (i = step; i < 10; i += step)\<close> of \<open>computeFrames\<close>, with \<open>step = 0.05\<close>,
  over the reals. How many frames the loop gives plays no part below.
\<close>

function frameLoop :: "vec3 list \<Rightarrow> vec3 list \<Rightarrow> vec3 list \<Rightarrow> real \<Rightarrow> error + vec3 list list" where
  "frameLoop topPoints bottomPoints sidePoints i =
     (if i < 10
      then bindE (getFrame topPoints bottomPoints sidePoints i) (\<lambda>f.
           bindE (frameLoop topPoints bottomPoints sidePoints (i + 0.05)) (\<lambda>fs. Inr (f # fs)))
      else Inr [])"
  by pat_completeness auto

termination
proof (relation "measure (\<lambda>(t, b, s, i). nat \<lceil>(10 - i) / 0.05\<rceil>)")
  show "wf (measure (\<lambda>(t, b, s, i). nat \<lceil>(10 - i) / 0.05\<rceil>))" by simp
next
  fix topPoints bottomPoints sidePoints :: "vec3 list" and i :: real and x
  assume i: "i < 10"
  have e: "(10 - (i + 0.05)) / 0.05 = (10 - i) / 0.05 - 1" by (simp add: field_simps)
  have "\<lceil>(10 - (i + 0.05)) / 0.05\<rceil> = \<lceil>(10 - i) / 0.05\<rceil> - 1"
    unfolding e by (rule ceiling_diff_one)
  moreover have "0 < (10 - i) / 0.05" using i by simp
  then have "0 < \<lceil>(10 - i) / 0.05\<rceil>" by (simp only: zero_less_ceiling)
  ultimately show "((topPoints, bottomPoints, sidePoints, i + 0.05),
                    (topPoints, bottomPoints, sidePoints, i))
      \<in> measure (\<lambda>(t, b, s, i). nat \<lceil>(10 - i) / 0.05\<rceil>)"
    by simp
qed

declare frameLoop.simps [simp del]

definition computeFrames :: "vec3 list \<Rightarrow> vec3 list \<Rightarrow> vec3 list \<Rightarrow> error + vec3 list list" where
  "computeFrames topPoints bottomPoints sidePoints =
     bindE (frameLoop topPoints bottomPoints sidePoints 0.05) (\<lambda>middle.
     bindE (defined (nthOrUndefined topPoints 100)) (\<lambda>topPt.
     bindE (defined (nthOrUndefined bottomPoints 100)) (\<lambda>bottomPt.
     bindE (defined (nthOrUndefined sidePoints 100)) (\<lambda>sidePt.
     bindE (getFramePoints topPt bottomPt sidePt) (\<lambda>lastFrame.
       Inr ([replicate (divisions + 1) (Vec3 0 0 0)] @ middle @ [lastFrame]))))))"

text \<open>The body: the points of all frames in order, on a plane of \<open>frames.length - 1\<close> rows.\<close>

definition bodyGeom :: "vec3 list list \<Rightarrow> geometry" where
  "bodyGeom frames = planeWith divisions (length frames - 1) (concat frames) 0"

text \<open>
  The tail fin: for each of the \<open>tailfinSlices + 1\<close> ratios, the points of the last frame
  moved toward the tail contour.
\<close>

definition tailSlice :: "vec3 list \<Rightarrow> vec3 list \<Rightarrow> real \<Rightarrow> error + vec3 list" where
  "tailSlice lastFrame fullTailPoints ratio =
     collect (\<lambda>idx. bindE (defined (nthOrUndefined fullTailPoints idx))
                       (\<lambda>q. Inr (lerpVectors (lastFrame ! idx) q ratio)))
             [0..<length lastFrame]"

definition tailGeom :: "vec3 list list \<Rightarrow> vec3 list \<Rightarrow> error + geometry" where
  "tailGeom frames fullTailPoints =
     bindE (defined (nthOrUndefined frames (length frames - 1))) (\<lambda>lastFrame.
     bindE (collect (\<lambda>i. tailSlice lastFrame fullTailPoints
                            (real i * (1 / real tailfinSlices)))
                    [0..<tailfinSlices + 1]) (\<lambda>slices.
       Inr (planeWith divisions tailfinSlices (concat slices) 1)))"

definition fullTail :: "vec3 list \<Rightarrow> vec3 list" where
  "fullTail tailPoints = tailPoints @ tl (rev tailPoints)"

text \<open>
  \<open>createFin\<close>: the contour, the contour reversed without its first point, the points of
  the base under the contour and those reversed without their first point, on a plane of
  \<open>(contourPoints.length - 1) * 2\<close> columns and one row. The reversed base points are
  copies taken before the \<open>z\<close> of the base points is set. Without contour points the
  source asks for a plane of \<open>- 2\<close> columns, which has no cell, as the plane of no
  column here.
\<close>

definition mapIndexed :: "(nat \<Rightarrow> 'a \<Rightarrow> 'b) \<Rightarrow> 'a list \<Rightarrow> 'b list" where
  "mapIndexed f xs = map (\<lambda>idx. f idx (xs ! idx)) [0..<length xs]"

definition createFin :: "vec3 list \<Rightarrow> vec3 list \<Rightarrow> bool \<Rightarrow> error + geometry" where
  "createFin basePoints contourPoints isTop =
     (let shift = 0.05;
          shiftSign = (if isTop then 1 else - 1);
          vAdd = Vec3 0 (- shift * shiftSign) 0
      in bindE (collect (\<lambda>idx. bindE (defined (getPoint basePoints (vx (contourPoints ! idx))))
                                  (\<lambda>q. Inr (add q vAdd)))
                        [0..<length contourPoints]) (\<lambda>basePts0.
         let basePtsRev0 = tl (rev basePts0);
             contourPointsRev = tl (rev contourPoints);
             basePts = mapIndexed (\<lambda>idx p. if idx > 0 \<and> idx < length basePts0 - 1
                                              then setZ p (shift * shiftSign) else p) basePts0;
             basePtsRev = mapIndexed (\<lambda>idx p. if idx < length basePtsRev0 - 1
                                                 then setZ p (- shift * shiftSign) else p)
                                     basePtsRev0;
             fullPoints = contourPoints @ contourPointsRev @ basePts @ basePtsRev
         in Inr (planeWith ((length contourPoints - 1) * 2) 1 fullPoints 1)))"

text \<open>\<open>translate\<close> and \<open>rotateX\<close> move the vertices of a geometry.\<close>

definition translate :: "geometry \<Rightarrow> real \<Rightarrow> real \<Rightarrow> real \<Rightarrow> geometry" where
  "translate g x y z = g\<lparr>positions := map (\<lambda>p. add p (Vec3 x y z)) (positions g)\<rparr>"

definition rotateX :: "geometry \<Rightarrow> real \<Rightarrow> geometry" where
  "rotateX g angle =
     g\<lparr>positions := map (\<lambda>p. Vec3 (vx p) (cos angle * vy p - sin angle * vz p)
                                     (sin angle * vy p + cos angle * vz p)) (positions g)\<rparr>"

definition degToRad :: "real \<Rightarrow> real" where
  "degToRad degrees = degrees * (pi / 180)"

text \<open>
  \<open>mergeGeometries\<close> of three.js: the attributes are concatenated, and the index of each
  geometry is shifted by the number of vertices before it.
\<close>

fun mergeIndex :: "nat \<Rightarrow> geometry list \<Rightarrow> nat list" where
  "mergeIndex indexOffset [] = []"
| "mergeIndex indexOffset (g # gs) =
     map (\<lambda>i. i + indexOffset) (index g) @ mergeIndex (indexOffset + length (positions g)) gs"

definition mergeGeometries :: "geometry list \<Rightarrow> geometry" where
  "mergeGeometries gs =
     \<lparr>positions = concat (map positions gs), parts = concat (map parts gs),
      index = mergeIndex 0 gs\<rparr>"

text \<open>
  The sub-meshes of the fish in the order they are merged, from the frames and the sampled
  curves: body, tail fin, dorsal fin, rect fin and the two pelvic fins.
\<close>

definition fishParts ::
  "vec3 list list \<Rightarrow> vec3 list \<Rightarrow> vec3 list \<Rightarrow> vec3 list \<Rightarrow> vec3 list \<Rightarrow> vec3 list \<Rightarrow> vec3 list
   \<Rightarrow> error + geometry list" where
  "fishParts frames tailPoints topPoints bottomPoints dorsalPoints rectPoints pelvicPoints =
     bindE (tailGeom frames (fullTail tailPoints)) (\<lambda>gTail.
     bindE (createFin topPoints dorsalPoints True) (\<lambda>gDorsal.
     bindE (createFin bottomPoints rectPoints False) (\<lambda>gRect.
     bindE (createFin bottomPoints pelvicPoints False) (\<lambda>gPelvic0.
       let gPelvic = translate gPelvic0 0 0.6 0;
           gPelvicL = translate (rotateX gPelvic (degToRad (- 20))) 0 (- 0.6) 0;
           gPelvicR = translate (rotateX gPelvic (degToRad 20)) 0 (- 0.6) 0
       in Inr [bodyGeom frames, gTail, gDorsal, gRect, gPelvicL, gPelvicR]))))"

text \<open>
  \<open>getPoints(divisions)\<close> of three.js: the points at the parameters \<open>d / divisions\<close> for
  \<open>d = 0, \<dots>, divisions\<close>.
\<close>

definition getPoints :: "curve \<Rightarrow> nat \<Rightarrow> error + vec3 list" where
  "getPoints c n =
     (if n = 0 then Inl TypeError
      else collect (\<lambda>d. getPointOnCurve c (real d / real n)) [0..<n + 1])"

text \<open>The other curves of \<open>createFishGeometry\<close>.\<close>

definition bottomCurve :: curve where
  "bottomCurve =
     \<lparr>curvePoints = [Vec3 0 0 0, Vec3 0.1 (- 0.15) 0, Vec3 0.5 (- 0.35) 0, Vec3 4.5 (- 1) 0,
                      Vec3 8 (- 0.6) 0, Vec3 9.5 (- 0.45) 0, Vec3 10 (- 0.55) 0],
      closed = False\<rparr>"

definition sideCurve :: curve where
  "sideCurve =
     \<lparr>curvePoints = [Vec3 0 0 0, Vec3 0.1 0 0.125, Vec3 1 0 0.375, Vec3 4 (- 0.25) 0.6,
                      Vec3 8 0 0.25, Vec3 10 0 0.05],
      closed = False\<rparr>"

definition tailCurve :: curve where
  "tailCurve =
     \<lparr>curvePoints = [Vec3 11 (- 1) 0, Vec3 12.5 (- 1.5) 0, Vec3 12 0 0, Vec3 12.5 1.5 0,
                      Vec3 11 1 0],
      closed = False\<rparr>"

definition dorsalCurve :: curve where
  "dorsalCurve =
     \<lparr>curvePoints = [Vec3 3 1.45 0, Vec3 3.25 2.25 0, Vec3 3.75 3 0, Vec3 6 2 0, Vec3 7 1 0],
      closed = False\<rparr>"

definition rectCurve :: curve where
  "rectCurve =
     \<lparr>curvePoints = [Vec3 6 (- 0.9) 0, Vec3 7.25 (- 1.5) 0, Vec3 7.5 (- 0.75) 0],
      closed = False\<rparr>"

definition pelvicCurve :: curve where
  "pelvicCurve =
     \<lparr>curvePoints = [Vec3 2.25 (- 0.7) 0, Vec3 3.75 (- 2) 0, Vec3 4 (- 1) 0],
      closed = False\<rparr>"

text \<open>\<open>createFishGeometry\<close>: the samplings, the frames, the sub-meshes and their merge.\<close>

definition createFishGeometry :: "error + geometry" where
  "createFishGeometry =
     bindE (getSpacedPoints topCurve 100) (\<lambda>topPoints.
     bindE (getSpacedPoints bottomCurve 100) (\<lambda>bottomPoints.
     bindE (getSpacedPoints sideCurve 100) (\<lambda>sidePoints.
     bindE (computeFrames topPoints bottomPoints sidePoints) (\<lambda>frames.
     bindE (getPoints tailCurve (divisions div 2)) (\<lambda>tailPoints.
     bindE (getSpacedPoints dorsalCurve 100) (\<lambda>dorsalPoints.
     bindE (getSpacedPoints rectCurve 40) (\<lambda>rectPoints.
     bindE (getSpacedPoints pelvicCurve 40) (\<lambda>pelvicPoints.
     bindE (fishParts frames tailPoints topPoints bottomPoints dorsalPoints rectPoints
                      pelvicPoints) (\<lambda>gs.
       Inr (mergeGeometries gs))))))))))"

text \<open>A geometry is valid when every entry of its index is the number of one of its vertices.\<close>

definition valid :: "geometry \<Rightarrow> bool" where
  "valid g \<longleftrightarrow> list_all (\<lambda>i. i < length (positions g)) (index g)"

section \<open>Theorems\<close>

lemma getPoint_below: "\<forall>p \<in> set ps. x < vx p \<Longrightarrow> getPoint ps x = Inr None"
  by (induction ps x rule: getPoint.induct) auto

lemma getPoint_above: "\<forall>p \<in> set ps. vx p < x \<Longrightarrow> getPoint ps x = Inr None"
  by (induction ps x rule: getPoint.induct) auto

text \<open>
  C7, as the code has it: for a query strictly below the smallest or strictly above the
  largest x of the sampled points, the lookup returns \<open>undefined\<close>; it raises no error
  and returns no point.
\<close>

theorem getPoint_outside_undefined:
  "(\<forall>p \<in> set ps. x < vx p) \<or> (\<forall>p \<in> set ps. vx p < x) \<Longrightarrow> getPoint ps x = Inr None"
  using getPoint_below getPoint_above by blast

theorem getPoint_outside_undefined_witness:
  "((\<forall>p \<in> set [Vec3 0 0 0, Vec3 1 2 0, Vec3 3 1 0]. 5 < vx p)
    \<or> (\<forall>p \<in> set [Vec3 0 0 0, Vec3 1 2 0, Vec3 3 1 0]. vx p < 5))
   \<and> getPoint [Vec3 0 0 0, Vec3 1 2 0, Vec3 3 1 0] 5 = Inr None"
  using getPoint_outside_undefined [of "[Vec3 0 0 0, Vec3 1 2 0, Vec3 3 1 0]" 5] by simp

text \<open>
  C7 as stated fails: at the points (0,0,0), (1,2,0), (3,1,0) and the query 5, which is
  above every x, the lookup does not fail with OutOfRange.
\<close>

theorem getPoint_no_OutOfRange:
  "getPoint [Vec3 0 0 0, Vec3 1 2 0, Vec3 3 1 0] 5 \<noteq> Inl OutOfRange"
  by simp

lemma fishData_Math_random [simp]: "fishData (snd (Math_random s)) = fishData s"
  and targets_Math_random [simp]: "targets (snd (Math_random s)) = targets s"
  by (simp_all add: Math_random_def)

lemma fishData_randFloat [simp]: "fishData (snd (randFloat lo hi s)) = fishData s"
  and targets_randFloat [simp]: "targets (snd (randFloat lo hi s)) = targets s"
  by (simp_all add: randFloat_def Math_random_def)

lemma fishData_randFloatSpread [simp]: "fishData (snd (randFloatSpread r s)) = fishData s"
  and targets_randFloatSpread [simp]: "targets (snd (randFloatSpread r s)) = targets s"
  by (simp_all add: randFloatSpread_def Math_random_def)

lemma fishData_pickNewTarget [simp]: "fishData (pickNewTarget i s) = fishData s"
  by (simp add: pickNewTarget_def split_beta Let_def)

lemma targets_pickNewTarget:
  "\<exists>v. targets (pickNewTarget i s) = store (targets s) i v"
  by (auto simp: pickNewTarget_def split_beta Let_def)

lemma store_inside:
  "i < length xs \<Longrightarrow> length (store xs i v) = length xs \<and> set (store xs i v) \<subseteq> insert (Some v) (set xs)"
  using set_update_subset_insert by (fastforce simp: store_def)

lemma store_at_end:
  "store xs (length xs) v = xs @ [Some v]"
  by (simp add: store_def)

lemma consistent_pickNewTarget:
  assumes "consistent s" "i < length (fishData s)"
  shows "consistent (pickNewTarget i s)"
proof -
  obtain v where v: "targets (pickNewTarget i s) = store (targets s) i v"
    using targets_pickNewTarget by blast
  have "i < length (targets s)" using assms by (simp add: consistent_def)
  from store_inside [OF this, of v] assms(1) show ?thesis
    by (auto simp: consistent_def v)
qed

lemma consistent_removeExtra:
  "consistent s \<Longrightarrow> consistent (removeExtra count s)"
proof (induction count s rule: removeExtra.induct)
  case (1 count s)
  show ?case
  proof (cases "length (fishData s) > count")
    case True
    have "consistent (s\<lparr>fishData := butlast (fishData s), targets := butlast (targets s)\<rparr>)"
      using "1.prems" by (auto simp: consistent_def dest: in_set_butlastD)
    with "1.IH" True show ?thesis by (subst removeExtra.simps) simp
  next
    case False
    with "1.prems" show ?thesis by (subst removeExtra.simps) simp
  qed
qed

lemma length_removeExtra:
  "length (fishData (removeExtra count s)) = min count (length (fishData s))"
proof (induction count s rule: removeExtra.induct)
  case (1 count s)
  show ?case
  proof (cases "length (fishData s) > count")
    case True
    with "1.IH" show ?thesis by (subst removeExtra.simps) simp
  next
    case False
    then show ?thesis by (subst removeExtra.simps) simp
  qed
qed

lemma consistent_addNew:
  "consistent s \<Longrightarrow> consistent (addNew p bsr count s)"
proof (induction p bsr count s rule: addNew.induct)
  case (1 p bsr count s)
  show ?case
  proof (cases "length (fishData s) < count")
    case True
    define s1 where "s1 = snd (Math_random s)"
    define r where "r = fst (Math_random s)"
    define s2 where "s2 = s1\<lparr>fishData := fishData s1 @ [newFish p bsr r]\<rparr>"
    define s3 where "s3 = pickNewTarget (length (fishData s2) - 1) s2"
    have len: "length (fishData s2) - 1 = length (targets s2)"
      using "1.prems" by (simp add: s2_def s1_def consistent_def)
    obtain v where v: "targets s3 = store (targets s2) (length (targets s2)) v"
      unfolding s3_def len using targets_pickNewTarget by blast
    have "consistent s3"
      using "1.prems" unfolding consistent_def v store_at_end
      by (auto simp: s3_def s2_def s1_def)
    moreover have "addNew p bsr count s = addNew p bsr count s3"
      using True
      by (subst addNew.simps) (simp add: s3_def s2_def s1_def r_def split_beta Let_def)
    moreover have "consistent s3 \<Longrightarrow> consistent (addNew p bsr count s3)"
      using "1.IH" [of "Math_random s" r s1 s2] True
      by (simp add: s3_def s2_def s1_def r_def)
    ultimately show ?thesis by simp
  next
    case False
    with "1.prems" show ?thesis by (subst addNew.simps) simp
  qed
qed


lemma lengthSq_nonneg [simp]: "0 \<le> lengthSq v"
  by (simp add: lengthSq_def)

lemma lengthSq_zero_iff: "lengthSq v = 0 \<longleftrightarrow> v = zero3"
proof (cases v)
  case (Vec3 a b c)
  have "a * a + b * b + c * c = 0 \<longleftrightarrow> a = 0 \<and> b = 0 \<and> c = 0"
    using sum_squares_eq_zero_iff [of a b] 
    by (smt (verit) mult_eq_0_iff zero_le_square)
  then show ?thesis by (simp add: Vec3 lengthSq_def zero3_def)
qed

lemma length3_zero_iff: "length3 v = 0 \<longleftrightarrow> v = zero3"
  by (simp add: length3_def lengthSq_zero_iff)

lemma length3_nonneg [simp]: "0 \<le> length3 v"
  by (simp add: length3_def)

lemma lengthSq_multiplyScalar: "lengthSq (multiplyScalar v k) = k * k * lengthSq v"
  by (simp add: lengthSq_def multiplyScalar_def algebra_simps)

lemma length3_multiplyScalar: "length3 (multiplyScalar v k) = \<bar>k\<bar> * length3 v"
  by (simp add: length3_def lengthSq_multiplyScalar real_sqrt_mult)

lemma length3_normalize: "v \<noteq> zero3 \<Longrightarrow> length3 (normalize v) = 1"
  using length3_nonneg [of v]
  by (simp add: normalize_def divideScalar_def length3_multiplyScalar length3_zero_iff)

lemma normalize_zero3 [simp]: "normalize zero3 = zero3"
  by (simp add: normalize_def divideScalar_def multiplyScalar_def zero3_def)

lemma length3_zero3 [simp]: "length3 zero3 = 0"
  by (simp add: length3_zero_iff)

lemma lengthSq_applyQuaternion:
  "lengthSq (applyQuaternion v q) =
     lengthSq v + 4 * (qx q * qx q + qy q * qy q + qz q * qz q + qw q * qw q - 1)
       * ((qx q * qx q + qy q * qy q + qz q * qz q) * lengthSq v
          - (qx q * vx v + qy q * vy v + qz q * vz v) * (qx q * vx v + qy q * vy v + qz q * vz v))"
  by (cases v; cases q) (simp add: lengthSq_def applyQuaternion_def Let_def algebra_simps)


lemma lengthSq_normalize: "v \<noteq> zero3 \<Longrightarrow> lengthSq (normalize v) = 1"
  using length3_normalize [of v] by (simp add: length3_def)

lemma lengthSq_applyAxisAngle_normalize:
  "lengthSq (applyAxisAngle v (normalize a) angle) = lengthSq v"
proof (cases "a = zero3")
  case True
  have "normalize a = Vec3 0 0 0" using True normalize_zero3 by (simp add: zero3_def)
  then show ?thesis
    by (simp add: applyAxisAngle_def lengthSq_applyQuaternion setFromAxisAngle_def Let_def)
next
  case False
  define n where "n = normalize a"
  have n: "vx n * vx n + vy n * vy n + vz n * vz n = 1"
    using lengthSq_normalize [OF False] by (simp add: n_def lengthSq_def)
  define sn where "sn = sin (angle / 2)"
  define cs where "cs = cos (angle / 2)"
  have sc: "sn * sn + cs * cs = 1"
    using sin_cos_squared_add [of "angle / 2"] by (simp add: sn_def cs_def power2_eq_square)
  have "vx n * sn * (vx n * sn) + vy n * sn * (vy n * sn) + vz n * sn * (vz n * sn) + cs * cs
        = (vx n * vx n + vy n * vy n + vz n * vz n) * (sn * sn) + cs * cs"
    by (simp add: algebra_simps)
  also have "\<dots> = 1" using n sc by simp
  finally have "qx (setFromAxisAngle n angle) * qx (setFromAxisAngle n angle)
      + qy (setFromAxisAngle n angle) * qy (setFromAxisAngle n angle)
      + qz (setFromAxisAngle n angle) * qz (setFromAxisAngle n angle)
      + qw (setFromAxisAngle n angle) * qw (setFromAxisAngle n angle) - 1 = 0"
    by (simp add: setFromAxisAngle_def Let_def sn_def cs_def)
  then show ?thesis
    unfolding applyAxisAngle_def lengthSq_applyQuaternion n_def [symmetric] by simp
qed

lemma length3_applyAxisAngle_normalize:
  "length3 (applyAxisAngle v (normalize a) angle) = length3 v"
  by (simp add: length3_def lengthSq_applyAxisAngle_normalize)

lemma half_values: "halfX = 8" "halfY = 3" "halfZ = 6"
  by (simp_all add: halfX_def halfY_def halfZ_def aqWidth_def aqHeight_def aqDepth_def margin_def)

lemma bounce_inBounds:
  "inBounds (fst (bounceZ (bounceY (bounceX (pos, vel, b)))))"
  by (simp add: bounceX_def bounceY_def bounceZ_def inBounds_def clamp_def half_values)

lemma bounce_lengthSq:
  "lengthSq (fst (snd (bounceZ (bounceY (bounceX (pos, vel, b)))))) = lengthSq vel"
  by (simp add: bounceX_def bounceY_def bounceZ_def lengthSq_def)

lemma length3_steer:
  "blend p delta target f \<noteq> zero3 \<Longrightarrow> 0 \<le> fishSpeed p
   \<Longrightarrow> length3 (steer p delta target f) = fishSpeed p"
  by (simp add: steer_def length3_multiplyScalar length3_normalize)

lemma fishData_randomTurn [simp]: "fishData (snd (randomTurn v s)) = fishData s"
  and targets_randomTurn [simp]: "targets (snd (randomTurn v s)) = targets s"
  by (simp_all add: randomTurn_def split_beta Let_def)

lemma length3_randomTurn: "length3 (fst (randomTurn v s)) = length3 v"
  by (simp add: randomTurn_def split_beta Let_def length3_applyAxisAngle_normalize)

lemma moveFish_result:
  assumes "i < length (targets s)" "targets s ! i = Some target"
  shows "\<exists>s' pos vel. moveFish p delta i s = Inr s'
      \<and> fishData s' = (fishData s)[i := (fishData s ! i)\<lparr>position := pos, velocity := vel\<rparr>]
      \<and> (targets s' = targets s \<or> (\<exists>v. targets s' = store (targets s) i v))
      \<and> inBounds pos
      \<and> length3 vel = length3 (steer p delta target (fishData s ! i))"
proof -
  define f where "f = fishData s ! i"
  define vel0 where "vel0 = steer p delta target f"
  define pos0 where "pos0 = addScaledVector (position f) vel0 delta"
  define b where "b = bounceZ (bounceY (bounceX (pos0, vel0, False)))"
  define pos where "pos = fst b"
  define vs where "vs = (if snd (snd b) then randomTurn (fst (snd b)) s else (fst (snd b), s))"
  define s2 where "s2 = (snd vs)\<lparr>fishData := (fishData (snd vs))[i := f\<lparr>position := pos, velocity := fst vs\<rparr>]\<rparr>"
  define s' where "s' = (if distanceToSquared pos target < 0.25 then pickNewTarget i s2 else s2)"
  have m: "moveFish p delta i s = Inr s'"
    using assms
    by (simp add: moveFish_def Let_def split_beta s'_def s2_def vs_def pos_def b_def pos0_def
        vel0_def f_def)
  have fd: "fishData (snd vs) = fishData s" and tg: "targets (snd vs) = targets s"
    by (simp_all add: vs_def)
  have 1: "fishData s' = (fishData s)[i := f\<lparr>position := pos, velocity := fst vs\<rparr>]"
    by (simp add: s'_def s2_def fd)
  have 2: "targets s' = targets s \<or> (\<exists>v. targets s' = store (targets s) i v)"
    using targets_pickNewTarget [of i s2] by (auto simp: s'_def s2_def tg)
  have 3: "inBounds pos" unfolding pos_def b_def by (rule bounce_inBounds)
  have "length3 (fst vs) = length3 (fst (snd b))"
    by (simp add: vs_def length3_randomTurn)
  also have "\<dots> = length3 vel0"
    unfolding b_def length3_def bounce_lengthSq ..
  finally have 4: "length3 (fst vs) = length3 (steer p delta target (fishData s ! i))"
    by (simp add: vel0_def f_def)
  from m 1 2 3 4 show ?thesis unfolding f_def by blast
qed


lemma forEachIndex_append:
  "forEachIndex body (xs @ ys) s =
     (case forEachIndex body xs s of Inl e \<Rightarrow> Inl e | Inr s' \<Rightarrow> forEachIndex body ys s')"
  by (induction xs arbitrary: s) (auto split: sum.splits)

lemma store_nth_other: "i < length xs \<Longrightarrow> j \<noteq> i \<Longrightarrow> store xs i v ! j = xs ! j"
  by (simp add: store_def)

lemma store_defined:
  assumes "i < length xs" "\<forall>x \<in> set xs. x \<noteq> None"
  shows "\<forall>x \<in> set (store xs i v). x \<noteq> None"
proof
  fix x assume "x \<in> set (store xs i v)"
  then have "x \<in> insert (Some v) (set xs)" using store_inside [OF assms(1), of v] by blast
  then show "x \<noteq> None" using assms(2) by auto
qed

lemma consistent_nth: "consistent s \<Longrightarrow> i < length (fishData s) \<Longrightarrow> \<exists>t. targets s ! i = Some t"
  by (metis consistent_def not_None_eq nth_mem)

lemma moveFish_moved:
  assumes mv: "moved p delta s1 n s'" and n: "n < length (fishData s1)"
  shows "\<exists>s''. moveFish p delta n s' = Inr s'' \<and> moved p delta s1 (Suc n) s''"
proof -
  have cons: "consistent s'" and len: "length (fishData s') = length (fishData s1)"
    and same: "fishData s' ! n = fishData s1 ! n" "targets s' ! n = targets s1 ! n"
    using mv by (simp_all add: moved_def)
  have nt: "n < length (targets s')" using cons len n by (simp add: consistent_def)
  obtain t where t: "targets s' ! n = Some t"
    using consistent_nth [OF cons] n len by auto
  from moveFish_result [OF nt t, of p delta]
  obtain s'' pos vel where m: "moveFish p delta n s' = Inr s''"
    and fd: "fishData s'' = (fishData s')[n := (fishData s' ! n)\<lparr>position := pos, velocity := vel\<rparr>]"
    and tg: "targets s'' = targets s' \<or> (\<exists>v. targets s'' = store (targets s') n v)"
    and ib: "inBounds pos"
    and sp: "length3 vel = length3 (steer p delta t (fishData s' ! n))"
    by blast
  have tlen: "length (targets s'') = length (targets s')"
    using tg store_inside [OF nt] by auto
  have tset: "\<forall>x \<in> set (targets s''). x \<noteq> None"
  proof -
    have "\<forall>x \<in> set (targets s'). x \<noteq> None" using cons by (simp add: consistent_def)
    from store_defined [OF nt this] tg this show ?thesis by metis
  qed
  have tother: "\<And>j. j \<noteq> n \<Longrightarrow> targets s'' ! j = targets s' ! j"
    using tg store_nth_other [OF nt] by auto
  have c'': "consistent s''"
    using cons tlen tset by (simp add: consistent_def fd)
  have l'': "length (fishData s'') = length (fishData s1)" by (simp add: fd len)
  have keep: "\<forall>j. Suc n \<le> j \<longrightarrow> fishData s'' ! j = fishData s1 ! j \<and> targets s'' ! j = targets s1 ! j"
    using mv tother by (simp add: moved_def fd)
  have prev: "\<forall>j<Suc n. inBounds (position (fishData s'' ! j))
            \<and> length3 (velocity (fishData s'' ! j))
                = length3 (steer p delta (the (targets s1 ! j)) (fishData s1 ! j))"
  proof (intro allI impI)
    fix j assume "j < Suc n"
    then consider "j < n" | "j = n" by linarith
    then show "inBounds (position (fishData s'' ! j))
            \<and> length3 (velocity (fishData s'' ! j))
                = length3 (steer p delta (the (targets s1 ! j)) (fishData s1 ! j))"
    proof cases
      case 1
      then show ?thesis using mv by (simp add: moved_def fd)
    next
      case 2
      have "n < length (fishData s')" using n len by simp
      then show ?thesis using ib sp t same by (simp add: 2 fd)
    qed
  qed
  from m c'' l'' keep prev show ?thesis unfolding moved_def by blast
qed

lemma forEachIndex_moved:
  assumes "consistent s1"
  shows "n \<le> length (fishData s1)
    \<Longrightarrow> \<exists>s'. forEachIndex (moveFish p delta) [0..<n] s1 = Inr s' \<and> moved p delta s1 n s'"
proof (induction n)
  case 0
  then show ?case using assms by (simp add: moved_def)
next
  case (Suc n)
  then obtain s' where s': "forEachIndex (moveFish p delta) [0..<n] s1 = Inr s'"
    and mv: "moved p delta s1 n s'" by auto
  from moveFish_moved [OF mv] Suc.prems
  obtain s'' where "moveFish p delta n s' = Inr s''" "moved p delta s1 (Suc n) s''" by auto
  then show ?case using s' by (simp add: forEachIndex_append)
qed

lemma length_separation_fold:
  "length (fold (\<lambda>i fs'. fs'[i := (fs' ! i)\<lparr>acceleration := separationOf p fs' i\<rparr>]) is fs) = length fs"
  by (induction "is" arbitrary: fs) simp_all

lemma length_separation [simp]: "length (separation p fs) = length fs"
  by (simp add: separation_def length_separation_fold)

lemma flockTick_moved:
  assumes "consistent s"
  shows "\<exists>s'. flockTick p delta s = Inr s'
     \<and> moved p delta (s\<lparr>fishData := separation p (fishData s)\<rparr>) (length (fishData s)) s'"
proof -
  define s1 where "s1 = s\<lparr>fishData := separation p (fishData s)\<rparr>"
  have c1: "consistent s1" using assms by (simp add: consistent_def s1_def)
  have "length (fishData s1) = length (fishData s)" by (simp add: s1_def)
  with forEachIndex_moved [OF c1, of "length (fishData s)" p delta]
  show ?thesis by (simp add: flockTick_def Let_def s1_def)
qed

lemma flockTick_inBounds:
  assumes "consistent s"
  shows "\<exists>s'. flockTick p delta s = Inr s' \<and> consistent s'
     \<and> length (fishData s') = length (fishData s)
     \<and> (\<forall>f \<in> set (fishData s'). inBounds (position f))"
proof -
  from flockTick_moved [OF assms, of p delta] obtain s' where
    t: "flockTick p delta s = Inr s'"
    and mv: "moved p delta (s\<lparr>fishData := separation p (fishData s)\<rparr>) (length (fishData s)) s'"
    by blast
  have len: "length (fishData s') = length (fishData s)" using mv by (simp add: moved_def)
  have "\<forall>f \<in> set (fishData s'). inBounds (position f)"
    using mv len by (auto simp: moved_def in_set_conv_nth)
  with t mv len show ?thesis by (auto simp: moved_def)
qed


lemma consistent_rand [simp]: "consistent (s\<lparr>rand := r\<rparr>) = consistent s"
  by (simp add: consistent_def)

lemma consistent_updateFishCount:
  "consistent s \<Longrightarrow> consistent (updateFishCount p bsr count s)"
  by (simp add: updateFishCount_def consistent_addNew consistent_removeExtra)

lemma length_addNew:
  "length (fishData (addNew p bsr count s)) = max count (length (fishData s))"
proof (induction p bsr count s rule: addNew.induct)
  case (1 p bsr count s)
  show ?case
  proof (cases "length (fishData s) < count")
    case True
    define s1 where "s1 = snd (Math_random s)"
    define r where "r = fst (Math_random s)"
    define s2 where "s2 = s1\<lparr>fishData := fishData s1 @ [newFish p bsr r]\<rparr>"
    define s3 where "s3 = pickNewTarget (length (fishData s2) - 1) s2"
    have "addNew p bsr count s = addNew p bsr count s3"
      using True
      by (subst addNew.simps) (simp add: s3_def s2_def s1_def r_def split_beta Let_def)
    moreover have "length (fishData (addNew p bsr count s3)) = max count (length (fishData s3))"
      using "1.IH" [of "Math_random s" r s1 s2] True
      by (simp add: s3_def s2_def s1_def r_def)
    moreover have "length (fishData s3) = Suc (length (fishData s))"
      by (simp add: s3_def s2_def s1_def)
    ultimately show ?thesis using True by simp
  next
    case False
    then show ?thesis by (subst addNew.simps) simp
  qed
qed

lemma length_updateFishCount:
  "length (fishData (updateFishCount p bsr count s)) = count"
  by (simp add: updateFishCount_def length_addNew length_removeExtra)

lemma runEvents_consistent:
  "consistent s \<Longrightarrow> \<exists>s'. runEvents p bsr evs s = Inr s' \<and> consistent s'"
proof (induction evs arbitrary: s)
  case Nil
  then show ?case by simp
next
  case (Cons ev evs)
  show ?case
  proof (cases ev)
    case (SetCount count rnd)
    have "consistent (updateFishCount p bsr count (s\<lparr>rand := rnd\<rparr>))"
      using Cons.prems by (simp add: consistent_updateFishCount)
    from Cons.IH [OF this] show ?thesis by (simp add: SetCount)
  next
    case (Frame delta rnd)
    have "consistent (s\<lparr>rand := rnd\<rparr>)" using Cons.prems by simp
    from flockTick_inBounds [OF this, of p delta]
    obtain s1 where s1: "flockTick p delta (s\<lparr>rand := rnd\<rparr>) = Inr s1" "consistent s1" by blast
    from Cons.IH [OF s1(2)] s1(1) show ?thesis by (simp add: Frame)
  qed
qed

lemma runEvents_append:
  "runEvents p bsr (xs @ ys) s =
     (case runEvents p bsr xs s of Inl e \<Rightarrow> Inl e | Inr s' \<Rightarrow> runEvents p bsr ys s')"
proof (induction xs arbitrary: s)
  case Nil
  then show ?case by simp
next
  case (Cons ev xs)
  then show ?case by (cases ev) (auto split: sum.splits)
qed

lemma consistent_initial: "consistent initial"
  by (simp add: consistent_def initial_def)

text \<open>
  C10: whatever sequence of fish-count changes and frames the program runs from its start,
  it never fails, the targets array is as long as the fish array, and every fish index
  has a target.
\<close>

theorem targets_match_fishData:
  "\<exists>s'. runEvents p bsr evs initial = Inr s'
      \<and> length (targets s') = length (fishData s')
      \<and> (\<forall>i < length (fishData s'). \<exists>t. targets s' ! i = Some t)"
proof -
  from runEvents_consistent [OF consistent_initial, of p bsr evs]
  obtain s' where s': "runEvents p bsr evs initial = Inr s'" "consistent s'" by blast
  then show ?thesis using consistent_nth [OF s'(2)] by (auto simp: consistent_def)
qed

theorem targets_match_fishData_witness:
  "\<exists>s'. runEvents defaultParams 1 [SetCount 2 (\<lambda>n. 1 / 2)] initial = Inr s'
      \<and> length (fishData s') = 2 \<and> length (targets s') = 2
      \<and> (\<exists>t. targets s' ! 0 = Some t) \<and> (\<exists>t. targets s' ! 1 = Some t)"
proof -
  from targets_match_fishData [of defaultParams 1 "[SetCount 2 (\<lambda>n. 1 / 2)]"]
  obtain s' where s': "runEvents defaultParams 1 [SetCount 2 (\<lambda>n. 1 / 2)] initial = Inr s'"
    and len: "length (targets s') = length (fishData s')"
    and def: "\<forall>i < length (fishData s'). \<exists>t. targets s' ! i = Some t" by blast
  have "s' = updateFishCount defaultParams 1 2 (initial\<lparr>rand := (\<lambda>n. 1 / 2)\<rparr>)"
    using s' by simp
  then have "length (fishData s') = 2" by (simp add: length_updateFishCount)
  with s' len def show ?thesis by auto
qed

text \<open>
  C2: from any state in which every fish has a target, with any positions and velocities,
  after any sequence of events that ends with a frame every fish lies within the
  half-extents on each axis.
\<close>

theorem fish_stay_in_bounds:
  assumes "consistent s"
  shows "\<exists>s'. runEvents p bsr (evs @ [Frame delta rnd]) s = Inr s'
      \<and> (\<forall>f \<in> set (fishData s'). inBounds (position f))"
proof -
  from runEvents_consistent [OF assms, of p bsr evs]
  obtain s1 where s1: "runEvents p bsr evs s = Inr s1" "consistent s1" by blast
  have "consistent (s1\<lparr>rand := rnd\<rparr>)" using s1(2) by simp
  from flockTick_inBounds [OF this, of p delta]
  obtain s' where "flockTick p delta (s1\<lparr>rand := rnd\<rparr>) = Inr s'"
    "\<forall>f \<in> set (fishData s'). inBounds (position f)" by blast
  then show ?thesis using s1(1) by (simp add: runEvents_append)
qed

text \<open>
  What the frame keeps of the speed: when the cruise speed is not negative and, for every
  fish, the vector that the steering \<open>lerp\<close> produces is not the zero vector, every fish
  ends the frame (steering, wall bounce and random turn) with speed \<open>fishSpeed\<close>.
\<close>

lemma speed_is_fishSpeed:
  assumes "consistent s" and "0 \<le> fishSpeed p"
    and "\<forall>i < length (fishData s).
           blend p delta (the (targets s ! i)) (separation p (fishData s) ! i) \<noteq> zero3"
  shows "\<exists>s'. flockTick p delta s = Inr s'
      \<and> (\<forall>f \<in> set (fishData s'). length3 (velocity f) = fishSpeed p)"
proof -
  from flockTick_moved [OF assms(1), of p delta] obtain s' where
    t: "flockTick p delta s = Inr s'"
    and mv: "moved p delta (s\<lparr>fishData := separation p (fishData s)\<rparr>) (length (fishData s)) s'"
    by blast
  have len: "length (fishData s') = length (fishData s)" using mv by (simp add: moved_def)
  have "length3 (velocity (fishData s' ! j)) = fishSpeed p" if "j < length (fishData s)" for j
  proof -
    have "length3 (velocity (fishData s' ! j))
        = length3 (steer p delta (the (targets s ! j)) (separation p (fishData s) ! j))"
      using mv that by (simp add: moved_def)
    also have "\<dots> = fishSpeed p"
      using assms(2,3) that by (simp add: length3_steer)
    finally show ?thesis .
  qed
  then have "\<forall>f \<in> set (fishData s'). length3 (velocity f) = fishSpeed p"
    using len by (auto simp: in_set_conv_nth)
  with t show ?thesis by blast
qed


theorem fish_stay_in_bounds_witness:
  "consistent \<lparr>fishData = [\<lparr>position = Vec3 100 0 0, velocity = Vec3 2 0 0,
                               acceleration = zero3, mass = 1, radius = 1\<rparr>],
               targets = [Some (Vec3 1 1 1)], rand = (\<lambda>n. 1 / 2)\<rparr>
   \<and> (\<exists>s'. runEvents defaultParams 1 ([] @ [Frame (1 / 60) (\<lambda>n. 1 / 2)])
              \<lparr>fishData = [\<lparr>position = Vec3 100 0 0, velocity = Vec3 2 0 0,
                               acceleration = zero3, mass = 1, radius = 1\<rparr>],
               targets = [Some (Vec3 1 1 1)], rand = (\<lambda>n. 1 / 2)\<rparr> = Inr s'
          \<and> (\<forall>f \<in> set (fishData s'). inBounds (position f)))"
proof -
  have c: "consistent \<lparr>fishData = [\<lparr>position = Vec3 100 0 0, velocity = Vec3 2 0 0,
                               acceleration = zero3, mass = 1, radius = 1\<rparr>],
               targets = [Some (Vec3 1 1 1)], rand = (\<lambda>n. 1 / 2)\<rparr>"
    by (simp add: consistent_def)
  from fish_stay_in_bounds [OF c, of defaultParams 1 "[]" "1 / 60" "\<lambda>n. 1 / 2"] c
  show ?thesis by blast
qed

lemma single_separation: "separation p [f] = [f\<lparr>acceleration := zero3\<rparr>]"
  by (simp add: separation_def separationOf_def)

lemma speed_is_fishSpeed_example:
  "consistent \<lparr>fishData = [\<lparr>position = zero3, velocity = Vec3 2 0 0,
                               acceleration = zero3, mass = 1, radius = 1\<rparr>],
               targets = [Some (Vec3 2 0 0)], rand = (\<lambda>n. 1 / 2)\<rparr>
   \<and> 0 \<le> fishSpeed defaultParams
   \<and> (\<exists>s'. flockTick defaultParams (1 / 60)
              \<lparr>fishData = [\<lparr>position = zero3, velocity = Vec3 2 0 0,
                               acceleration = zero3, mass = 1, radius = 1\<rparr>],
               targets = [Some (Vec3 2 0 0)], rand = (\<lambda>n. 1 / 2)\<rparr> = Inr s'
          \<and> (\<forall>f \<in> set (fishData s'). length3 (velocity f) = fishSpeed defaultParams))"
proof -
  let ?s = "\<lparr>fishData = [\<lparr>position = zero3, velocity = Vec3 2 0 0,
                               acceleration = zero3, mass = 1, radius = 1\<rparr>],
               targets = [Some (Vec3 2 0 0)], rand = (\<lambda>n. 1 / 2)\<rparr>"
  have c: "consistent ?s" by (simp add: consistent_def)
  have sp: "0 \<le> fishSpeed defaultParams" by (simp add: defaultParams_def)
  have b: "\<forall>i < length (fishData ?s).
       blend defaultParams (1 / 60) (the (targets ?s ! i))
         (separation defaultParams (fishData ?s) ! i) \<noteq> zero3"
    by (simp add: single_separation blend_def normalize_def length3_def lengthSq_def
        divideScalar_def multiplyScalar_def subVectors_def add_def lerp_def zero3_def
        defaultParams_def)
  from speed_is_fishSpeed [OF c sp b] c sp show ?thesis by blast
qed

lemma removeExtra_stop: "\<not> count < length (fishData s) \<Longrightarrow> removeExtra count s = s"
  by (subst removeExtra.simps) simp

lemma addNew_stop: "\<not> length (fishData s) < count \<Longrightarrow> addNew p bsr count s = s"
  by (subst addNew.simps) simp

lemma addNew_go:
  "length (fishData s) < count \<Longrightarrow>
   addNew p bsr count s =
     addNew p bsr count
       (pickNewTarget (length (fishData s))
          ((snd (Math_random s))\<lparr>fishData := fishData s @ [newFish p bsr (fst (Math_random s))]\<rparr>))"
  by (subst addNew.simps) (simp add: split_beta Let_def)

lemma first_fish:
  "updateFishCount defaultParams 1 1 (initial\<lparr>rand := (\<lambda>n. if n = 1 then 7 / 16 else 1 / 2)\<rparr>)
   = \<lparr>fishData = [\<lparr>position = Vec3 0 0 0, velocity = Vec3 2 0 0, acceleration = Vec3 0 0 0,
                     mass = 1.1, radius = 0.2\<rparr>],
      targets = [Some (Vec3 (- 1) 0 0)],
      rand = (\<lambda>n. 1 / 2)\<rparr>"
  by (simp add: updateFishCount_def initial_def removeExtra_stop addNew_go addNew_stop
      Math_random_def pickNewTarget_def randFloat_def Let_def store_def newFish_def
      defaultParams_def half_values multiplyScalar_def zero3_def)

lemma still_frame:
  "flockTick defaultParams 0
     (\<lparr>fishData = [\<lparr>position = Vec3 0 0 0, velocity = Vec3 2 0 0, acceleration = Vec3 0 0 0,
                     mass = 1.1, radius = 0.2\<rparr>],
      targets = [Some (Vec3 (- 1) 0 0)],
      rand = (\<lambda>n. 1 / 2)\<rparr>\<lparr>rand := (\<lambda>n. 1 / 2)\<rparr>)
   = Inr \<lparr>fishData = [\<lparr>position = Vec3 0 0 0, velocity = Vec3 2 0 0, acceleration = Vec3 0 0 0,
                     mass = 1.1, radius = 0.2\<rparr>],
      targets = [Some (Vec3 (- 1) 0 0)],
      rand = (\<lambda>n. 1 / 2)\<rparr>"
  by (simp add: flockTick_def single_separation moveFish_def steer_def blend_def
      normalize_def length3_def lengthSq_def divideScalar_def multiplyScalar_def subVectors_def
      add_def lerp_def zero3_def defaultParams_def addScaledVector_def bounceX_def bounceY_def
      bounceZ_def half_values distanceToSquared_def Let_def)

lemma slow_frame:
  "flockTick defaultParams (1 / 3)
     (\<lparr>fishData = [\<lparr>position = Vec3 0 0 0, velocity = Vec3 2 0 0, acceleration = Vec3 0 0 0,
                     mass = 1.1, radius = 0.2\<rparr>],
      targets = [Some (Vec3 (- 1) 0 0)],
      rand = (\<lambda>n. 1 / 2)\<rparr>\<lparr>rand := (\<lambda>n. 1 / 2)\<rparr>)
   = Inr \<lparr>fishData = [\<lparr>position = Vec3 0 0 0, velocity = Vec3 0 0 0, acceleration = Vec3 0 0 0,
                     mass = 1.1, radius = 0.2\<rparr>],
      targets = [Some (Vec3 (- 1) 0 0)],
      rand = (\<lambda>n. 1 / 2)\<rparr>"
  by (simp add: flockTick_def single_separation moveFish_def steer_def blend_def
      normalize_def length3_def lengthSq_def divideScalar_def multiplyScalar_def subVectors_def
      add_def lerp_def zero3_def defaultParams_def addScaledVector_def bounceX_def bounceY_def
      bounceZ_def half_values distanceToSquared_def Let_def)

text \<open>
  C5 at a failing input, reached from the start of the program: one fish is created (mass
  1.1, target (-1, 0, 0)) at the origin with velocity (2, 0, 0); the first frame has
  \<open>delta = 0\<close>, the second lasts a third of a second. With \<open>turnSpeed = 1.5\<close> the
  \<open>lerp\<close> by 0.5 between (1, 0, 0) and (-1, 0, 0) is the zero vector, \<open>normalize\<close> leaves
  it, and the fish ends the frame with speed 0, not \<open>fishSpeed = 2\<close>.
\<close>

theorem speed_zero_after_start:
  "runEvents defaultParams 1
     [SetCount 1 (\<lambda>n. if n = 1 then 7 / 16 else 1 / 2), Frame 0 (\<lambda>n. 1 / 2),
      Frame (1 / 3) (\<lambda>n. 1 / 2)] initial
   = Inr \<lparr>fishData = [\<lparr>position = Vec3 0 0 0, velocity = Vec3 0 0 0,
                         acceleration = Vec3 0 0 0, mass = 1.1, radius = 0.2\<rparr>],
          targets = [Some (Vec3 (- 1) 0 0)],
          rand = (\<lambda>n. 1 / 2)\<rparr>
   \<and> length3 (Vec3 0 0 0) \<noteq> fishSpeed defaultParams"
proof -
  have "length3 (Vec3 0 0 0) \<noteq> fishSpeed defaultParams"
    by (simp add: length3_def lengthSq_def defaultParams_def)
  then show ?thesis
    by (simp only: runEvents.simps first_fish still_frame slow_frame sum.case simp_thms)
qed

lemma pair_separation:
  "separation p [a, b] =
     [a\<lparr>acceleration := separationForce p a (position b) zero3\<rparr>,
      b\<lparr>acceleration := separationForce p b (position a) zero3\<rparr>]"
  by (simp add: separation_def separationOf_def numeral_2_eq_2)

lemma length3_subVectors_commute: "length3 (subVectors a b) = length3 (subVectors b a)"
proof -
  have "lengthSq (subVectors a b) = lengthSq (subVectors b a)"
    by (simp add: lengthSq_def subVectors_def algebra_simps)
  then show ?thesis by (simp add: length3_def)
qed

lemma normalize_subVectors_commute:
  "normalize (subVectors b a) = multiplyScalar (normalize (subVectors a b)) (- 1)"
  unfolding normalize_def length3_subVectors_commute [of b a]
  by (simp add: divideScalar_def multiplyScalar_def subVectors_def algebra_simps)

lemma multiplyScalar_twice: "multiplyScalar (multiplyScalar v a) b = multiplyScalar v (a * b)"
  by (simp add: multiplyScalar_def algebra_simps)

lemma add_zero3_left [simp]: "add zero3 v = v"
  by (simp add: add_def zero3_def)

lemma separationForce_zero3:
  assumes "0 < length3 (subVectors (position f) q)"
    and "length3 (subVectors (position f) q) < separationDist p"
  shows "separationForce p f q zero3 =
     multiplyScalar (normalize (subVectors (position f) q))
       (separationStrength p * (separationDist p - length3 (subVectors (position f) q)) / mass f)"
  using assms by (simp add: separationForce_def Let_def divideScalar_def multiplyScalar_twice)

text \<open>
  C4, as the code has it: for two fish 0.2 apart with \<open>separationDist = 1\<close> and
  \<open>separationStrength = 2\<close>, both accelerations are non-zero and opposite in direction
  (mass times acceleration of one is minus that of the other), and their magnitudes are
  1.6 divided by the fish's own mass.
\<close>

theorem separation_of_two:
  assumes d: "length3 (subVectors (position a) (position b)) = 0.2"
    and p: "separationDist p = 1.0" "separationStrength p = 2.0"
    and m: "0 < mass a" "0 < mass b"
  shows "acceleration (separation p [a, b] ! 0) \<noteq> zero3
     \<and> acceleration (separation p [a, b] ! 1) \<noteq> zero3
     \<and> multiplyScalar (acceleration (separation p [a, b] ! 0)) (mass a)
         = multiplyScalar (acceleration (separation p [a, b] ! 1)) (- mass b)
     \<and> length3 (acceleration (separation p [a, b] ! 0)) = 1.6 / mass a
     \<and> length3 (acceleration (separation p [a, b] ! 1)) = 1.6 / mass b"
proof -
  define n where "n = normalize (subVectors (position a) (position b))"
  have d': "length3 (subVectors (position b) (position a)) = 0.2"
    using d length3_subVectors_commute by simp
  have "subVectors (position a) (position b) \<noteq> zero3"
    using d length3_zero_iff [of "subVectors (position a) (position b)"] by auto
  then have n1: "length3 n = 1" unfolding n_def by (rule length3_normalize)
  have kA: "separationStrength p * (separationDist p
              - length3 (subVectors (position a) (position b))) / mass a = 1.6 / mass a"
    unfolding d p by simp
  have kB: "separationStrength p * (separationDist p
              - length3 (subVectors (position b) (position a))) / mass b = 1.6 / mass b"
    unfolding d' p by simp
  have inA: "0 < length3 (subVectors (position a) (position b))"
    "length3 (subVectors (position a) (position b)) < separationDist p"
    unfolding d p by simp_all
  have inB: "0 < length3 (subVectors (position b) (position a))"
    "length3 (subVectors (position b) (position a)) < separationDist p"
    unfolding d' p by simp_all
  have accA: "acceleration (separation p [a, b] ! 0) = multiplyScalar n (1.6 / mass a)"
    using separationForce_zero3 [OF inA] unfolding kA by (simp add: pair_separation n_def)
  have accB: "acceleration (separation p [a, b] ! 1) = multiplyScalar n (- (1.6 / mass b))"
    using separationForce_zero3 [OF inB] unfolding kB
    by (simp add: pair_separation n_def multiplyScalar_twice
        normalize_subVectors_commute [of "position b" "position a"])
  have lA: "length3 (acceleration (separation p [a, b] ! 0)) = 1.6 / mass a"
    unfolding accA using m n1 by (simp add: length3_multiplyScalar)
  have lB: "length3 (acceleration (separation p [a, b] ! 1)) = 1.6 / mass b"
    unfolding accB using m n1 by (simp add: length3_multiplyScalar)
  have nzA: "acceleration (separation p [a, b] ! 0) \<noteq> zero3"
    using lA m length3_zero_iff [of "acceleration (separation p [a, b] ! 0)"] by auto
  have nzB: "acceleration (separation p [a, b] ! 1) \<noteq> zero3"
    using lB m length3_zero_iff [of "acceleration (separation p [a, b] ! 1)"] by auto
  have opp: "multiplyScalar (acceleration (separation p [a, b] ! 0)) (mass a)
         = multiplyScalar (acceleration (separation p [a, b] ! 1)) (- mass b)"
    unfolding accA accB using m by (simp add: multiplyScalar_twice)
  from nzA nzB opp lA lB show ?thesis by blast
qed

lemma length3_along_x: "length3 (Vec3 x 0 0) = \<bar>x\<bar>"
  by (simp add: length3_def lengthSq_def)

theorem separation_of_two_witness:
  "length3 (subVectors (position \<lparr>position = Vec3 0 0 0, velocity = Vec3 2 0 0,
        acceleration = Vec3 0 0 0, mass = 1, radius = 1\<rparr>)
      (position \<lparr>position = Vec3 0.2 0 0, velocity = Vec3 2 0 0,
        acceleration = Vec3 0 0 0, mass = 1.1, radius = 1\<rparr>)) = 0.2
   \<and> length3 (acceleration (separation defaultParams
        [\<lparr>position = Vec3 0 0 0, velocity = Vec3 2 0 0,
          acceleration = Vec3 0 0 0, mass = 1, radius = 1\<rparr>,
         \<lparr>position = Vec3 0.2 0 0, velocity = Vec3 2 0 0,
          acceleration = Vec3 0 0 0, mass = 1.1, radius = 1\<rparr>] ! 0)) = 1.6 / 1
   \<and> length3 (acceleration (separation defaultParams
        [\<lparr>position = Vec3 0 0 0, velocity = Vec3 2 0 0,
          acceleration = Vec3 0 0 0, mass = 1, radius = 1\<rparr>,
         \<lparr>position = Vec3 0.2 0 0, velocity = Vec3 2 0 0,
          acceleration = Vec3 0 0 0, mass = 1.1, radius = 1\<rparr>] ! 1)) = 1.6 / 1.1"
proof -
  let ?a = "\<lparr>position = Vec3 0 0 0, velocity = Vec3 2 0 0,
        acceleration = Vec3 0 0 0, mass = 1, radius = 1\<rparr>"
  let ?b = "\<lparr>position = Vec3 0.2 0 0, velocity = Vec3 2 0 0,
        acceleration = Vec3 0 0 0, mass = 1.1, radius = 1\<rparr>"
  have d: "length3 (subVectors (position ?a) (position ?b)) = 0.2"
    by (simp add: subVectors_def length3_along_x)
  have p: "separationDist defaultParams = 1.0" "separationStrength defaultParams = 2.0"
    by (simp_all add: defaultParams_def)
  have m: "0 < mass ?a" "0 < mass ?b" by simp_all
  from separation_of_two [OF d p m] d show ?thesis by simp
qed

text \<open>
  C4 as stated fails: with masses 1 and 1.1 (\<open>Math.random()\<close> returning 0 and 0.5 at
  creation) the two accelerations have different magnitudes.
\<close>

theorem separation_magnitudes_differ:
  "length3 (acceleration (separation defaultParams
        [\<lparr>position = Vec3 0 0 0, velocity = Vec3 2 0 0,
          acceleration = Vec3 0 0 0, mass = 1, radius = 1\<rparr>,
         \<lparr>position = Vec3 0.2 0 0, velocity = Vec3 2 0 0,
          acceleration = Vec3 0 0 0, mass = 1.1, radius = 1\<rparr>] ! 0))
   \<noteq> length3 (acceleration (separation defaultParams
        [\<lparr>position = Vec3 0 0 0, velocity = Vec3 2 0 0,
          acceleration = Vec3 0 0 0, mass = 1, radius = 1\<rparr>,
         \<lparr>position = Vec3 0.2 0 0, velocity = Vec3 2 0 0,
          acceleration = Vec3 0 0 0, mass = 1.1, radius = 1\<rparr>] ! 1))"
  by (simp add: pair_separation separationForce_def Let_def subVectors_def length3_along_x
      normalize_def divideScalar_def multiplyScalar_def add_def zero3_def defaultParams_def)

subsection \<open>The water surface\<close>

lemma grid_nth: "grid g \<Longrightarrow> i < WATER_RES_X \<Longrightarrow> length (g ! i) = WATER_RES_Z"
  by (simp add: grid_def list_all_length)

lemma grid_setAt: "grid g \<Longrightarrow> grid (setAt g x z v)"
  by (cases "x < length g") (auto simp: grid_def setAt_def list_all_length nth_list_update)

lemma setAt_nth:
  "grid g \<Longrightarrow> x < WATER_RES_X \<Longrightarrow> z < WATER_RES_Z
   \<Longrightarrow> setAt g x z v ! i ! j = (if i = x \<and> j = z then v else g ! i ! j)"
  by (auto simp: setAt_def grid_def list_all_length nth_list_update)

lemma cellStep_wellFormed: "wellFormed w \<Longrightarrow> wellFormed (cellStep delta x z w)"
  by (simp add: wellFormed_def cellStep_def Let_def grid_setAt)

lemma cellStep_vel:
  assumes "wellFormed w" "x < WATER_RES_X" "z < WATER_RES_Z"
  shows "velocityAt (cellStep delta x z w) i j =
     (if i = x \<and> j = z then newVel delta w w x z else velocityAt w i j)"
  using assms
  by (simp add: velocityAt_def heightAt_def newVel_def cellStep_def Let_def wellFormed_def setAt_nth grid_setAt)

lemma cellStep_hgt:
  assumes "wellFormed w" "x < WATER_RES_X" "z < WATER_RES_Z"
  shows "heightAt (cellStep delta x z w) i j =
     (if i = x \<and> j = z then heightAt w x z + newVel delta w w x z * delta else heightAt w i j)"
  using assms
  by (simp add: velocityAt_def heightAt_def newVel_def cellStep_def Let_def wellFormed_def setAt_nth grid_setAt)

lemma newVel_same:
  "heightAt w2 (i - 1) j = heightAt w1 (i - 1) j \<Longrightarrow> heightAt w2 i (j - 1) = heightAt w1 i (j - 1)
   \<Longrightarrow> newVel delta w w2 i j = newVel delta w w1 i j"
  by (simp add: newVel_def)

lemma interior_range: "interior x z \<Longrightarrow> x < WATER_RES_X \<and> z < WATER_RES_Z \<and> 1 \<le> x \<and> 1 \<le> z"
  by (auto simp: interior_def)

lemma handled_Suc:
  "interior x z \<Longrightarrow> handled x (Suc z) i j \<longleftrightarrow> handled x z i j \<or> (i = x \<and> j = z)"
  by (auto simp: handled_def)

lemma cellStep_reached:
  assumes r: "reached delta w x z w'" and int: "interior x z"
  shows "reached delta w x (Suc z) (cellStep delta x z w')"
proof -
  define w2 where "w2 = cellStep delta x z w'"
  have wf: "wellFormed w'" using r by (simp add: reached_def)
  have rng: "x < WATER_RES_X" "z < WATER_RES_Z" "1 \<le> x" "1 \<le> z"
    using interior_range [OF int] by simp_all
  have v2: "\<And>i j. velocityAt w2 i j = (if i = x \<and> j = z then newVel delta w' w' x z else velocityAt w' i j)"
    unfolding w2_def using cellStep_vel [OF wf rng(1,2)] by simp
  have h2: "\<And>i j. heightAt w2 i j =
       (if i = x \<and> j = z then heightAt w' x z + newVel delta w' w' x z * delta else heightAt w' i j)"
    unfolding w2_def using cellStep_hgt [OF wf rng(1,2)] by simp
  have old: "\<And>i j. \<not> handled x z i j \<Longrightarrow> velocityAt w' i j = velocityAt w i j \<and> heightAt w' i j = heightAt w i j"
    using r by (simp add: reached_def)
  have nh: "\<not> handled x z x z" "\<not> handled x z (x + 1) z" "\<not> handled x z x (z + 1)"
    by (auto simp: handled_def)
  have here: "newVel delta w' w' x z = newVel delta w w2 x z"
  proof -
    have "x - 1 \<noteq> x" "z - 1 \<noteq> z" using rng by simp_all
    then have "heightAt w2 (x - 1) z = heightAt w' (x - 1) z" "heightAt w2 x (z - 1) = heightAt w' x (z - 1)"
      unfolding h2 by simp_all
    then show ?thesis
      using old [OF nh(1)] old [OF nh(2)] old [OF nh(3)] by (simp add: newVel_def)
  qed
  have before: "newVel delta w w2 i j = newVel delta w w' i j" if "handled x z i j" for i j
  proof (rule newVel_same)
    have ij: "1 \<le> i" "1 \<le> j" "i < x \<or> (i = x \<and> j < z)"
      using that by (auto simp: handled_def interior_def)
    show "heightAt w2 (i - 1) j = heightAt w' (i - 1) j" using ij by (auto simp: h2)
    show "heightAt w2 i (j - 1) = heightAt w' i (j - 1)" using ij by (auto simp: h2)
  qed
  have "\<forall>i j. (handled x (Suc z) i j \<longrightarrow>
                  velocityAt w2 i j = newVel delta w w2 i j
                  \<and> heightAt w2 i j = heightAt w i j + newVel delta w w2 i j * delta)
              \<and> (\<not> handled x (Suc z) i j \<longrightarrow> velocityAt w2 i j = velocityAt w i j \<and> heightAt w2 i j = heightAt w i j)"
  proof (intro allI)
    fix i j
    consider (cell) "i = x \<and> j = z" | (earlier) "handled x z i j" | (later) "\<not> handled x (Suc z) i j"
      using handled_Suc [OF int] by blast
    then show "(handled x (Suc z) i j \<longrightarrow>
                  velocityAt w2 i j = newVel delta w w2 i j
                  \<and> heightAt w2 i j = heightAt w i j + newVel delta w w2 i j * delta)
              \<and> (\<not> handled x (Suc z) i j \<longrightarrow> velocityAt w2 i j = velocityAt w i j \<and> heightAt w2 i j = heightAt w i j)"
    proof cases
      case cell
      then show ?thesis
        using here old [OF nh(1)] handled_Suc [OF int, of i j] by (simp add: v2 h2)
    next
      case earlier
      then have ne: "\<not> (i = x \<and> j = z)" using nh(1) by auto
      then have same: "velocityAt w2 i j = velocityAt w' i j" "heightAt w2 i j = heightAt w' i j"
        by (auto simp: v2 h2)
      have "velocityAt w' i j = newVel delta w w' i j \<and> heightAt w' i j = heightAt w i j + newVel delta w w' i j * delta"
        using r earlier by (simp add: reached_def)
      then show ?thesis
        unfolding same before [OF earlier] using handled_Suc [OF int, of i j] earlier by simp
    next
      case later
      then have nh': "\<not> handled x z i j" and ne: "\<not> (i = x \<and> j = z)"
        using handled_Suc [OF int, of i j] by auto
      from ne have same: "velocityAt w2 i j = velocityAt w' i j" "heightAt w2 i j = heightAt w' i j"
        by (auto simp: v2 h2)
      show ?thesis unfolding same using later old [OF nh'] by simp
    qed
  qed
  moreover have "wellFormed w2" unfolding w2_def using wf by (rule cellStep_wellFormed)
  ultimately show ?thesis unfolding reached_def w2_def by blast
qed

lemma row_reached:
  assumes r: "reached delta w x 1 w'" and x: "1 \<le> x" "x < WATER_RES_X - 1"
  shows "1 \<le> n \<Longrightarrow> n \<le> WATER_RES_Z - 1
     \<Longrightarrow> reached delta w x n (fold (cellStep delta x) [1..<n] w')"
proof (induction n)
  case 0
  then show ?case by simp
next
  case (Suc n)
  show ?case
  proof (cases "n = 0")
    case True
    then show ?thesis using r by simp
  next
    case False
    then have n: "1 \<le> n" "n \<le> WATER_RES_Z - 1" "n < WATER_RES_Z - 1" using Suc.prems by simp_all
    have "interior x n" using x n by (simp add: interior_def)
    from cellStep_reached [OF Suc.IH [OF n(1,2)] this] n(1) show ?thesis by simp
  qed
qed

lemma handled_next_row:
  "handled x (WATER_RES_Z - Suc 0) i j \<longleftrightarrow> handled (Suc x) (Suc 0) i j"
  by (auto simp: handled_def interior_def)

lemma reached_next_row:
  "reached delta w x (WATER_RES_Z - 1) w' \<Longrightarrow> reached delta w (Suc x) 1 w'"
  by (simp add: reached_def handled_next_row)

lemma handled_none: "\<not> handled (Suc 0) (Suc 0) i j"
  by (auto simp: handled_def interior_def)

lemma rows_reached:
  assumes wf: "wellFormed w"
  shows "1 \<le> m \<Longrightarrow> m \<le> WATER_RES_X - 1
     \<Longrightarrow> reached delta w m 1
           (fold (\<lambda>x. fold (cellStep delta x) [1..<WATER_RES_Z - 1]) [1..<m] w)"
proof (induction m)
  case 0
  then show ?case by simp
next
  case (Suc m)
  show ?case
  proof (cases "m = 0")
    case True
    then show ?thesis using wf by (simp add: reached_def handled_none)
  next
    case False
    then have m: "1 \<le> m" "m \<le> WATER_RES_X - 1" "m < WATER_RES_X - 1" using Suc.prems by simp_all
    have z: "(1::nat) \<le> WATER_RES_Z - 1" by (simp add: WATER_RES_Z_def)
    from row_reached [OF Suc.IH [OF m(1,2)] m(1,3) z]
    have "reached delta w m (WATER_RES_Z - 1)
       (fold (cellStep delta m) [1..<WATER_RES_Z - 1]
          (fold (\<lambda>x. fold (cellStep delta x) [1..<WATER_RES_Z - 1]) [1..<m] w))" by simp
    from reached_next_row [OF this] m(1) show ?thesis by simp
  qed
qed

lemma handled_all: "handled (WATER_RES_X - Suc 0) (Suc 0) i j \<longleftrightarrow> interior i j"
  by (auto simp: handled_def interior_def)

lemma updateWaterPhysics_equation:
  assumes "wellFormed w"
  shows "wellFormed (updateWaterPhysics delta w)"
    and "interior i j \<Longrightarrow>
         velocityAt (updateWaterPhysics delta w) i j = newVel delta w (updateWaterPhysics delta w) i j"
    and "interior i j \<Longrightarrow>
         heightAt (updateWaterPhysics delta w) i j
           = heightAt w i j + newVel delta w (updateWaterPhysics delta w) i j * delta"
    and "\<not> interior i j \<Longrightarrow> velocityAt (updateWaterPhysics delta w) i j = velocityAt w i j"
    and "\<not> interior i j \<Longrightarrow> heightAt (updateWaterPhysics delta w) i j = heightAt w i j"
proof -
  have "(1::nat) \<le> WATER_RES_X - 1" by (simp add: WATER_RES_X_def)
  from rows_reached [OF assms this, of delta]
  have r: "reached delta w (WATER_RES_X - 1) 1 (updateWaterPhysics delta w)"
    by (simp add: updateWaterPhysics_def)
  show "wellFormed (updateWaterPhysics delta w)" using r by (simp add: reached_def)
  show "interior i j \<Longrightarrow>
         velocityAt (updateWaterPhysics delta w) i j = newVel delta w (updateWaterPhysics delta w) i j"
    using r by (simp add: reached_def handled_all)
  show "interior i j \<Longrightarrow>
         heightAt (updateWaterPhysics delta w) i j
           = heightAt w i j + newVel delta w (updateWaterPhysics delta w) i j * delta"
    using r by (simp add: reached_def handled_all)
  show "\<not> interior i j \<Longrightarrow> velocityAt (updateWaterPhysics delta w) i j = velocityAt w i j"
    using r by (simp add: reached_def handled_all)
  show "\<not> interior i j \<Longrightarrow> heightAt (updateWaterPhysics delta w) i j = heightAt w i j"
    using r by (simp add: reached_def handled_all)
qed

lemma WAVE_SPEED_pos: "0 < WAVE_SPEED" by (simp add: WAVE_SPEED_def)

lemma DAMPING_pos: "0 < DAMPING" by (simp add: DAMPING_def)

lemma newVel_zero:
  assumes "velocityAt w i j = 0" "heightAt w i j = 0" "heightAt w (i + 1) j = 0" "heightAt w i (j + 1) = 0"
    "heightAt w' (i - 1) j = 0" "heightAt w' i (j - 1) = 0"
  shows "newVel delta w w' i j = 0"
  using assms by (simp add: newVel_def)

lemma newVel_pos:
  assumes "0 \<le> velocityAt w i j" "heightAt w i j = 0" "heightAt w (i + 1) j = 0" "heightAt w i (j + 1) = 0"
    "0 \<le> heightAt w' (i - 1) j" "0 \<le> heightAt w' i (j - 1)" "0 < delta"
    "0 < velocityAt w i j \<or> 0 < heightAt w' (i - 1) j \<or> 0 < heightAt w' i (j - 1)"
  shows "0 < newVel delta w w' i j"
proof -
  let ?a = "heightAt w' (i - 1) j" and ?b = "heightAt w' i (j - 1)"
  have eq: "newVel delta w w' i j = (velocityAt w i j + ((?a + ?b) / 4) * WAVE_SPEED * delta) * DAMPING"
    using assms by (simp add: newVel_def)
  have k: "0 < WAVE_SPEED * delta" using WAVE_SPEED_pos assms(7) by simp
  have ab: "0 \<le> (?a + ?b) / 4" using assms by simp
  have "0 < velocityAt w i j + ((?a + ?b) / 4) * (WAVE_SPEED * delta)"
  proof (cases "0 < velocityAt w i j")
    case True
    have "0 \<le> ((?a + ?b) / 4) * (WAVE_SPEED * delta)" using ab k by simp
    with True show ?thesis by linarith
  next
    case False
    then have "0 < (?a + ?b) / 4" using assms by auto
    then have "0 < ((?a + ?b) / 4) * (WAVE_SPEED * delta)" using k by simp
    with assms(1) show ?thesis by linarith
  qed
  then show ?thesis unfolding eq using DAMPING_pos by (simp add: mult.assoc)
qed

lemma impulse_spread:
  assumes wf: "wellFormed w"
    and h0: "\<And>i j. i < WATER_RES_X \<Longrightarrow> j < WATER_RES_Z \<Longrightarrow> heightAt w i j = 0"
    and v0: "\<And>i j. i < WATER_RES_X \<Longrightarrow> j < WATER_RES_Z \<Longrightarrow> (i, j) \<noteq> (x0, z0) \<Longrightarrow> velocityAt w i j = 0"
    and vs: "0 < velocityAt w x0 z0" and c: "interior x0 z0" and d: "0 < delta"
  shows "i < WATER_RES_X \<Longrightarrow> j < WATER_RES_Z \<Longrightarrow>
     (quadrant x0 z0 i j \<longrightarrow> 0 < heightAt (updateWaterPhysics delta w) i j)
     \<and> (\<not> quadrant x0 z0 i j \<longrightarrow> heightAt (updateWaterPhysics delta w) i j = 0)"
proof (induction "i + j" arbitrary: i j rule: less_induct)
  case less
  let ?w' = "updateWaterPhysics delta w"
  note eqs = updateWaterPhysics_equation [OF wf]
  show ?case
  proof (cases "interior i j")
    case False
    then have "heightAt ?w' i j = 0" using eqs(5) [of i j] h0 less.prems by simp
    moreover have "\<not> quadrant x0 z0 i j" using False by (simp add: quadrant_def)
    ultimately show ?thesis by simp
  next
    case True
    then have ij: "1 \<le> i" "1 \<le> j" "i + 1 < WATER_RES_X" "j + 1 < WATER_RES_Z"
      by (auto simp: interior_def)
    have hij: "heightAt ?w' i j = newVel delta w ?w' i j * delta"
      using eqs(3) [OF True] h0 less.prems by simp
    have A: "(quadrant x0 z0 (i - 1) j \<longrightarrow> 0 < heightAt ?w' (i - 1) j)
        \<and> (\<not> quadrant x0 z0 (i - 1) j \<longrightarrow> heightAt ?w' (i - 1) j = 0)"
      using less.hyps [of "i - 1" j] ij less.prems by simp
    have B: "(quadrant x0 z0 i (j - 1) \<longrightarrow> 0 < heightAt ?w' i (j - 1))
        \<and> (\<not> quadrant x0 z0 i (j - 1) \<longrightarrow> heightAt ?w' i (j - 1) = 0)"
      using less.hyps [of i "j - 1"] ij less.prems by simp
    have z: "heightAt w i j = 0" "heightAt w (i + 1) j = 0" "heightAt w i (j + 1) = 0"
      using h0 ij less.prems by simp_all
    show ?thesis
    proof (cases "quadrant x0 z0 i j")
      case False
      then have out: "i < x0 \<or> j < z0" using True by (auto simp: quadrant_def)
      then have "\<not> quadrant x0 z0 (i - 1) j" "\<not> quadrant x0 z0 i (j - 1)"
        by (auto simp: quadrant_def)
      then have ab: "heightAt ?w' (i - 1) j = 0" "heightAt ?w' i (j - 1) = 0" using A B by simp_all
      have "(i, j) \<noteq> (x0, z0)" using out by auto
      then have "velocityAt w i j = 0" using v0 less.prems by simp
      from newVel_zero [OF this z ab] hij False show ?thesis by simp
    next
      case q: True
      have ab: "0 \<le> heightAt ?w' (i - 1) j" "0 \<le> heightAt ?w' i (j - 1)"
        using A B by (smt (verit))+
      have v: "0 \<le> velocityAt w i j"
        using v0 [of i j] vs less.prems by (cases "(i, j) = (x0, z0)") auto
      have src: "0 < velocityAt w i j \<or> 0 < heightAt ?w' (i - 1) j \<or> 0 < heightAt ?w' i (j - 1)"
      proof (cases "(i, j) = (x0, z0)")
        case True
        then show ?thesis using vs by simp
      next
        case False
        then have "x0 < i \<or> z0 < j" using q by (auto simp: quadrant_def)
        then have "quadrant x0 z0 (i - 1) j \<or> quadrant x0 z0 i (j - 1)"
          using q c by (auto simp: quadrant_def interior_def)
        then show ?thesis using A B by auto
      qed
      from newVel_pos [OF v z ab d src] hij d q show ?thesis by simp
    qed
  qed
qed

lemma grid_replicate: "grid (replicate WATER_RES_X (replicate WATER_RES_Z 0))"
  by (simp add: grid_def list_all_length)

lemma wellFormed_stillWater: "wellFormed stillWater"
  by (simp add: wellFormed_def stillWater_def grid_replicate)

lemma heightAt_stillWater: "i < WATER_RES_X \<Longrightarrow> j < WATER_RES_Z \<Longrightarrow> heightAt stillWater i j = 0"
  by (simp add: heightAt_def stillWater_def)

lemma velocityAt_stillWater: "i < WATER_RES_X \<Longrightarrow> j < WATER_RES_Z \<Longrightarrow> velocityAt stillWater i j = 0"
  by (simp add: velocityAt_def stillWater_def)

lemma disturbWater_stillWater:
  assumes "interior (nat (gridIndex worldX aqWidth WATER_RES_X))
                    (nat (gridIndex worldZ aqDepth WATER_RES_Z))"
  shows "wellFormed (disturbWater worldX worldZ s stillWater)"
    and "i < WATER_RES_X \<Longrightarrow> j < WATER_RES_Z \<Longrightarrow> heightAt (disturbWater worldX worldZ s stillWater) i j = 0"
    and "i < WATER_RES_X \<Longrightarrow> j < WATER_RES_Z \<Longrightarrow>
         velocityAt (disturbWater worldX worldZ s stillWater) i j
           = (if (i, j) = (nat (gridIndex worldX aqWidth WATER_RES_X),
                           nat (gridIndex worldZ aqDepth WATER_RES_Z)) then s else 0)"
proof -
  let ?ix = "gridIndex worldX aqWidth WATER_RES_X" and ?iz = "gridIndex worldZ aqDepth WATER_RES_Z"
  have rng: "?ix > 0" "?ix < int WATER_RES_X - 1" "?iz > 0" "?iz < int WATER_RES_Z - 1"
    using assms by (auto simp: interior_def)
  then have eq: "disturbWater worldX worldZ s stillWater
      = stillWater\<lparr>waterVelocities := setAt (waterVelocities stillWater) (nat ?ix) (nat ?iz)
                                    (waterVelocities stillWater ! nat ?ix ! nat ?iz + s)\<rparr>"
    by (simp add: disturbWater_def Let_def)
  have n: "nat ?ix < WATER_RES_X" "nat ?iz < WATER_RES_Z" using rng by auto
  have g: "grid (waterVelocities stillWater)" using wellFormed_stillWater by (simp add: wellFormed_def)
  show "wellFormed (disturbWater worldX worldZ s stillWater)"
    unfolding eq using wellFormed_stillWater by (simp add: wellFormed_def grid_setAt)
  show "i < WATER_RES_X \<Longrightarrow> j < WATER_RES_Z \<Longrightarrow> heightAt (disturbWater worldX worldZ s stillWater) i j = 0"
    unfolding eq using heightAt_stillWater [of i j] by (simp add: heightAt_def)
  show "i < WATER_RES_X \<Longrightarrow> j < WATER_RES_Z \<Longrightarrow>
         velocityAt (disturbWater worldX worldZ s stillWater) i j
           = (if (i, j) = (nat ?ix, nat ?iz) then s else 0)"
    unfolding eq using velocityAt_stillWater [of i j] velocityAt_stillWater [OF n]
    by (simp add: velocityAt_def setAt_nth [OF g n])
qed

lemma disturbed_spread:
  assumes c: "interior (nat (gridIndex worldX aqWidth WATER_RES_X))
                       (nat (gridIndex worldZ aqDepth WATER_RES_Z))"
    and d: "0 < delta" and ij: "i < WATER_RES_X" "j < WATER_RES_Z"
  shows "heightAt (updateWaterPhysics delta (disturbWater worldX worldZ 1.0 stillWater)) i j \<noteq> 0
     \<longleftrightarrow> interior i j \<and> nat (gridIndex worldX aqWidth WATER_RES_X) \<le> i
         \<and> nat (gridIndex worldZ aqDepth WATER_RES_Z) \<le> j"
proof -
  let ?w = "disturbWater worldX worldZ 1.0 stillWater"
  let ?x0 = "nat (gridIndex worldX aqWidth WATER_RES_X)"
  let ?z0 = "nat (gridIndex worldZ aqDepth WATER_RES_Z)"
  note dw = disturbWater_stillWater [OF c]
  have x0: "?x0 < WATER_RES_X" "?z0 < WATER_RES_Z" using c by (auto simp: interior_def)
  have v0: "\<And>i j. i < WATER_RES_X \<Longrightarrow> j < WATER_RES_Z \<Longrightarrow> (i, j) \<noteq> (?x0, ?z0) \<Longrightarrow> velocityAt ?w i j = 0"
    using dw(3) by simp
  have vs: "0 < velocityAt ?w ?x0 ?z0" using dw(3) [OF x0] by simp
  from impulse_spread [OF dw(1) dw(2) v0 vs c d ij]
  show ?thesis by (auto simp: quadrant_def)
qed

lemma disturbWater_cell:
  "disturbWater worldX worldZ strength w =
     (let ix = gridIndex worldX aqWidth WATER_RES_X; iz = gridIndex worldZ aqDepth WATER_RES_Z
      in if ix > 0 \<and> ix < int WATER_RES_X - 1 \<and> iz > 0 \<and> iz < int WATER_RES_Z - 1
         then disturbCell (nat ix) (nat iz) strength w else w)"
  by (simp add: disturbWater_def disturbCell_def Let_def)

lemma disturbCell_stillWater:
  assumes "interior x0 z0"
  shows "wellFormed (disturbCell x0 z0 s stillWater)"
    and "i < WATER_RES_X \<Longrightarrow> j < WATER_RES_Z \<Longrightarrow> heightAt (disturbCell x0 z0 s stillWater) i j = 0"
    and "i < WATER_RES_X \<Longrightarrow> j < WATER_RES_Z \<Longrightarrow>
         velocityAt (disturbCell x0 z0 s stillWater) i j = (if (i, j) = (x0, z0) then s else 0)"
proof -
  have n: "x0 < WATER_RES_X" "z0 < WATER_RES_Z" using assms by (auto simp: interior_def)
  have g: "grid (waterVelocities stillWater)" using wellFormed_stillWater by (simp add: wellFormed_def)
  show "wellFormed (disturbCell x0 z0 s stillWater)"
    using wellFormed_stillWater by (simp add: disturbCell_def wellFormed_def grid_setAt)
  show "i < WATER_RES_X \<Longrightarrow> j < WATER_RES_Z \<Longrightarrow> heightAt (disturbCell x0 z0 s stillWater) i j = 0"
    using heightAt_stillWater [of i j] by (simp add: disturbCell_def heightAt_def)
  show "i < WATER_RES_X \<Longrightarrow> j < WATER_RES_Z \<Longrightarrow>
         velocityAt (disturbCell x0 z0 s stillWater) i j = (if (i, j) = (x0, z0) then s else 0)"
    using velocityAt_stillWater [of i j] velocityAt_stillWater [OF n]
    by (simp add: disturbCell_def velocityAt_def setAt_nth [OF g n])
qed

lemma disturbedCell_spread:
  assumes c: "interior x0 z0" and d: "0 < delta" and ij: "i < WATER_RES_X" "j < WATER_RES_Z"
  shows "(quadrant x0 z0 i j
          \<longrightarrow> 0 < heightAt (updateWaterPhysics delta (disturbCell x0 z0 1.0 stillWater)) i j)
     \<and> (\<not> quadrant x0 z0 i j
          \<longrightarrow> heightAt (updateWaterPhysics delta (disturbCell x0 z0 1.0 stillWater)) i j = 0)"
proof -
  let ?w = "disturbCell x0 z0 1.0 stillWater"
  note dw = disturbCell_stillWater [OF c]
  have x0: "x0 < WATER_RES_X" "z0 < WATER_RES_Z" using c by (auto simp: interior_def)
  have v0: "\<And>i j. i < WATER_RES_X \<Longrightarrow> j < WATER_RES_Z \<Longrightarrow> (i, j) \<noteq> (x0, z0) \<Longrightarrow> velocityAt ?w i j = 0"
    using dw(3) by simp
  have vs: "0 < velocityAt ?w x0 z0" using dw(3) [OF x0] by simp
  from impulse_spread [OF dw(1) dw(2) v0 vs c d ij] show ?thesis .
qed

text \<open>
  C6, as the code has it: from the grid at rest with a velocity impulse of 1.0 on one
  interior cell \<open>(x0, z0)\<close>, after one step with a positive \<open>delta\<close> the two neighbours
  that follow the cell in the loop order, \<open>(x0 + 1, z0)\<close> and \<open>(x0, z0 + 1)\<close>, have a
  non-zero height where they are interior cells, and the two neighbours that precede it,
  \<open>(x0 - 1, z0)\<close> and \<open>(x0, z0 - 1)\<close>, as every cell with a smaller \<open>x\<close> or a smaller
  \<open>z\<close>, have the height zero. Nothing is said of the other cells after it.
\<close>

theorem impulse_reaches_later_neighbours:
  assumes "interior x0 z0" and "0 < delta"
  shows "(interior (x0 + 1) z0 \<longrightarrow>
            heightAt (updateWaterPhysics delta (disturbCell x0 z0 1.0 stillWater)) (x0 + 1) z0 \<noteq> 0)
     \<and> (interior x0 (z0 + 1) \<longrightarrow>
            heightAt (updateWaterPhysics delta (disturbCell x0 z0 1.0 stillWater)) x0 (z0 + 1) \<noteq> 0)
     \<and> heightAt (updateWaterPhysics delta (disturbCell x0 z0 1.0 stillWater)) (x0 - 1) z0 = 0
     \<and> heightAt (updateWaterPhysics delta (disturbCell x0 z0 1.0 stillWater)) x0 (z0 - 1) = 0
     \<and> (\<forall>i j. i < WATER_RES_X \<and> j < WATER_RES_Z \<and> (i < x0 \<or> j < z0) \<longrightarrow>
            heightAt (updateWaterPhysics delta (disturbCell x0 z0 1.0 stillWater)) i j = 0)"
proof -
  let ?h = "heightAt (updateWaterPhysics delta (disturbCell x0 z0 1.0 stillWater))"
  note sp = disturbedCell_spread [OF assms]
  have r: "1 \<le> x0" "x0 < WATER_RES_X - 1" "1 \<le> z0" "z0 < WATER_RES_Z - 1"
    using assms(1) by (auto simp: interior_def)
  have before: "?h i j = 0" if "i < WATER_RES_X" "j < WATER_RES_Z" "i < x0 \<or> j < z0" for i j
  proof -
    have "\<not> quadrant x0 z0 i j" using that(3) by (auto simp: quadrant_def)
    then show ?thesis using sp [OF that(1,2)] by simp
  qed
  have a: "?h (x0 + 1) z0 \<noteq> 0" if "interior (x0 + 1) z0"
  proof -
    have "quadrant x0 z0 (x0 + 1) z0" using that by (simp add: quadrant_def)
    moreover have "x0 + 1 < WATER_RES_X" "z0 < WATER_RES_Z" using r by simp_all
    ultimately show ?thesis using sp [of "x0 + 1" z0] by simp
  qed
  have b: "?h x0 (z0 + 1) \<noteq> 0" if "interior x0 (z0 + 1)"
  proof -
    have "quadrant x0 z0 x0 (z0 + 1)" using that by (simp add: quadrant_def)
    moreover have "x0 < WATER_RES_X" "z0 + 1 < WATER_RES_Z" using r by simp_all
    ultimately show ?thesis using sp [of x0 "z0 + 1"] by simp
  qed
  have c: "?h (x0 - 1) z0 = 0" using r by (intro before) simp_all
  have e: "?h x0 (z0 - 1) = 0" using r by (intro before) simp_all
  from a b c e before show ?thesis by blast
qed

theorem impulse_reaches_later_neighbours_witness:
  "interior 32 32 \<and> (0::real) < 1 / 60
   \<and> heightAt (updateWaterPhysics (1 / 60) (disturbCell 32 32 1.0 stillWater)) 33 32 \<noteq> 0
   \<and> heightAt (updateWaterPhysics (1 / 60) (disturbCell 32 32 1.0 stillWater)) 32 33 \<noteq> 0
   \<and> heightAt (updateWaterPhysics (1 / 60) (disturbCell 32 32 1.0 stillWater)) 31 32 = 0
   \<and> heightAt (updateWaterPhysics (1 / 60) (disturbCell 32 32 1.0 stillWater)) 32 31 = 0
   \<and> heightAt (updateWaterPhysics (1 / 60) (disturbCell 32 32 1.0 stillWater)) 40 7 = 0"
proof -
  have i: "interior 32 32" "interior (32 + 1) 32" "interior 32 (32 + 1)"
    by (simp_all add: interior_def WATER_RES_X_def WATER_RES_Z_def)
  have d: "(0::real) < 1 / 60" by simp
  have r: "40 < WATER_RES_X \<and> 7 < WATER_RES_Z \<and> ((40::nat) < 32 \<or> (7::nat) < 32)"
    by (simp add: WATER_RES_X_def WATER_RES_Z_def)
  from impulse_reaches_later_neighbours [OF i(1) d] i d r show ?thesis by simp
qed

lemma gridIndex_centre:
  "gridIndex 0 aqWidth WATER_RES_X = 32" "gridIndex 0 aqDepth WATER_RES_Z = 32"
  by (simp_all add: gridIndex_def aqWidth_def aqDepth_def WATER_RES_X_def WATER_RES_Z_def)

lemma interior_centre:
  "interior (nat (gridIndex 0 aqWidth WATER_RES_X)) (nat (gridIndex 0 aqDepth WATER_RES_Z))"
  unfolding gridIndex_centre by (simp add: interior_def WATER_RES_X_def WATER_RES_Z_def)

text \<open>
  C6 as stated fails: with the impulse on the cell (32, 32) (world position (0, 0)) and
  \<open>delta = 1/60\<close>, the neighbours (31, 32) and (32, 31) keep height zero, and the cell
  (34, 32), two cells away, does not.
\<close>

theorem impulse_neighbours_counterexample:
  "heightAt (updateWaterPhysics (1 / 60) (disturbWater 0 0 1.0 stillWater)) 31 32 = 0
   \<and> heightAt (updateWaterPhysics (1 / 60) (disturbWater 0 0 1.0 stillWater)) 32 31 = 0
   \<and> heightAt (updateWaterPhysics (1 / 60) (disturbWater 0 0 1.0 stillWater)) 34 32 \<noteq> 0"
proof -
  have d: "(0::real) < 1 / 60" by simp
  have r: "31 < WATER_RES_X" "32 < WATER_RES_X" "34 < WATER_RES_X" "31 < WATER_RES_Z" "32 < WATER_RES_Z"
    by (simp_all add: WATER_RES_X_def WATER_RES_Z_def)
  have "interior 34 32" by (simp add: interior_def WATER_RES_X_def WATER_RES_Z_def)
  then show ?thesis
    using disturbed_spread [OF interior_centre d r(1) r(5)]
      disturbed_spread [OF interior_centre d r(2) r(4)]
      disturbed_spread [OF interior_centre d r(3) r(5)]
    by (simp add: gridIndex_centre)
qed

lemma cellStepSync_wellFormed: "wellFormed w \<Longrightarrow> wellFormed (cellStepSync delta w0 x z w)"
  by (simp add: wellFormed_def cellStepSync_def Let_def grid_setAt)

lemma cellStepSync_vel:
  assumes "wellFormed w" "x < WATER_RES_X" "z < WATER_RES_Z"
  shows "velocityAt (cellStepSync delta w0 x z w) i j =
     (if i = x \<and> j = z
      then (velocityAt w x z + ((heightAt w0 (x - 1) z + heightAt w0 (x + 1) z + heightAt w0 x (z - 1) + heightAt w0 x (z + 1)) / 4
                          - heightAt w0 x z) * WAVE_SPEED * delta) * DAMPING
      else velocityAt w i j)"
  using assms
  by (simp add: velocityAt_def heightAt_def cellStepSync_def Let_def wellFormed_def setAt_nth grid_setAt)

lemma cellStepSync_hgt:
  assumes "wellFormed w" "x < WATER_RES_X" "z < WATER_RES_Z"
  shows "heightAt (cellStepSync delta w0 x z w) i j =
     (if i = x \<and> j = z
      then heightAt w x z + (velocityAt w x z + ((heightAt w0 (x - 1) z + heightAt w0 (x + 1) z + heightAt w0 x (z - 1) + heightAt w0 x (z + 1)) / 4
                          - heightAt w0 x z) * WAVE_SPEED * delta) * DAMPING * delta
      else heightAt w i j)"
  using assms
  by (simp add: velocityAt_def heightAt_def cellStepSync_def Let_def wellFormed_def setAt_nth grid_setAt)

lemma cellStepSync_reached:
  assumes r: "reachedSync delta w x z w'" and int: "interior x z"
  shows "reachedSync delta w x (Suc z) (cellStepSync delta w x z w')"
proof -
  define w2 where "w2 = cellStepSync delta w x z w'"
  have wf: "wellFormed w'" using r by (simp add: reachedSync_def)
  have rng: "x < WATER_RES_X" "z < WATER_RES_Z"
    using interior_range [OF int] by simp_all
  have nh: "\<not> handled x z x z" by (auto simp: handled_def)
  have old: "velocityAt w' x z = velocityAt w x z" "heightAt w' x z = heightAt w x z"
    using r nh by (simp_all add: reachedSync_def)
  have v2: "\<And>i j. velocityAt w2 i j = (if i = x \<and> j = z then newVel delta w w x z else velocityAt w' i j)"
    unfolding w2_def cellStepSync_vel [OF wf rng] old by (simp add: newVel_def)
  have h2: "\<And>i j. heightAt w2 i j =
       (if i = x \<and> j = z then heightAt w x z + newVel delta w w x z * delta else heightAt w' i j)"
    unfolding w2_def cellStepSync_hgt [OF wf rng] old by (simp add: newVel_def)
  have "\<forall>i j. (handled x (Suc z) i j \<longrightarrow>
                  velocityAt w2 i j = newVel delta w w i j
                  \<and> heightAt w2 i j = heightAt w i j + newVel delta w w i j * delta)
              \<and> (\<not> handled x (Suc z) i j \<longrightarrow> velocityAt w2 i j = velocityAt w i j \<and> heightAt w2 i j = heightAt w i j)"
    using r nh unfolding reachedSync_def handled_Suc [OF int] v2 h2 by auto
  moreover have "wellFormed w2" unfolding w2_def using wf by (rule cellStepSync_wellFormed)
  ultimately show ?thesis unfolding reachedSync_def w2_def by blast
qed

lemma rowSync_reached:
  assumes r: "reachedSync delta w x 1 w'" and x: "1 \<le> x" "x < WATER_RES_X - 1"
  shows "1 \<le> n \<Longrightarrow> n \<le> WATER_RES_Z - 1
     \<Longrightarrow> reachedSync delta w x n (fold (cellStepSync delta w x) [1..<n] w')"
proof (induction n)
  case 0
  then show ?case by simp
next
  case (Suc n)
  show ?case
  proof (cases "n = 0")
    case True
    then show ?thesis using r by simp
  next
    case False
    then have n: "1 \<le> n" "n \<le> WATER_RES_Z - 1" "n < WATER_RES_Z - 1" using Suc.prems by simp_all
    have "interior x n" using x n by (simp add: interior_def)
    from cellStepSync_reached [OF Suc.IH [OF n(1,2)] this] n(1) show ?thesis by simp
  qed
qed

lemma reachedSync_next_row:
  "reachedSync delta w x (WATER_RES_Z - 1) w' \<Longrightarrow> reachedSync delta w (Suc x) 1 w'"
  by (simp add: reachedSync_def handled_next_row)

lemma rowsSync_reached:
  assumes wf: "wellFormed w"
  shows "1 \<le> m \<Longrightarrow> m \<le> WATER_RES_X - 1
     \<Longrightarrow> reachedSync delta w m 1
           (fold (\<lambda>x. fold (cellStepSync delta w x) [1..<WATER_RES_Z - 1]) [1..<m] w)"
proof (induction m)
  case 0
  then show ?case by simp
next
  case (Suc m)
  show ?case
  proof (cases "m = 0")
    case True
    then show ?thesis using wf by (simp add: reachedSync_def handled_none)
  next
    case False
    then have m: "1 \<le> m" "m \<le> WATER_RES_X - 1" "m < WATER_RES_X - 1" using Suc.prems by simp_all
    have z: "(1::nat) \<le> WATER_RES_Z - 1" by (simp add: WATER_RES_Z_def)
    from rowSync_reached [OF Suc.IH [OF m(1,2)] m(1,3) z]
    have "reachedSync delta w m (WATER_RES_Z - 1)
       (fold (cellStepSync delta w m) [1..<WATER_RES_Z - 1]
          (fold (\<lambda>x. fold (cellStepSync delta w x) [1..<WATER_RES_Z - 1]) [1..<m] w))" by simp
    from reachedSync_next_row [OF this] m(1) show ?thesis by simp
  qed
qed

lemma updateWaterPhysicsSync_equation:
  assumes "wellFormed w" "interior i j"
  shows "heightAt (updateWaterPhysicsSync delta w) i j = heightAt w i j + newVel delta w w i j * delta"
proof -
  have "(1::nat) \<le> WATER_RES_X - 1" by (simp add: WATER_RES_X_def)
  from rowsSync_reached [OF assms(1) this, of delta]
  have r: "reachedSync delta w (WATER_RES_X - 1) 1 (updateWaterPhysicsSync delta w)"
    by (simp add: updateWaterPhysicsSync_def)
  then show ?thesis using assms(2) by (simp add: reachedSync_def handled_all)
qed

text \<open>
  C9: after the in-place step the height of an interior cell is its old height plus
  \<open>delta\<close> times its new velocity, where the Laplacian reads the new heights of
  \<open>(x - 1, z)\<close> and \<open>(x, z - 1)\<close> and the old heights of \<open>(x + 1, z)\<close> and
  \<open>(x, z + 1)\<close>; and on the grid at rest with an impulse on the cell (32, 32) the in-place
  step and the synchronous step give different grids, for every positive \<open>delta\<close>.
\<close>

theorem inplace_differs_from_synchronous:
  "(wellFormed w \<and> interior x z \<longrightarrow>
      heightAt (updateWaterPhysics delta w) x z
        = heightAt w x z
          + (velocityAt w x z
             + ((heightAt (updateWaterPhysics delta w) (x - 1) z + heightAt w (x + 1) z
                 + heightAt (updateWaterPhysics delta w) x (z - 1) + heightAt w x (z + 1)) / 4
                - heightAt w x z) * WAVE_SPEED * delta) * DAMPING * delta)
   \<and> (0 < delta \<longrightarrow>
        updateWaterPhysics delta (disturbWater 0 0 1.0 stillWater)
          \<noteq> updateWaterPhysicsSync delta (disturbWater 0 0 1.0 stillWater))"
proof (intro conjI impI)
  assume "wellFormed w \<and> interior x z"
  then show "heightAt (updateWaterPhysics delta w) x z
        = heightAt w x z
          + (velocityAt w x z
             + ((heightAt (updateWaterPhysics delta w) (x - 1) z + heightAt w (x + 1) z
                 + heightAt (updateWaterPhysics delta w) x (z - 1) + heightAt w x (z + 1)) / 4
                - heightAt w x z) * WAVE_SPEED * delta) * DAMPING * delta"
    using updateWaterPhysics_equation(3) [of w x z delta] by (simp add: newVel_def)
next
  assume d: "0 < delta"
  let ?w = "disturbWater 0 0 1.0 stillWater"
  note dw = disturbWater_stillWater [OF interior_centre, where s = "1.0"]
  have r: "33 < WATER_RES_X" "32 < WATER_RES_Z" by (simp_all add: WATER_RES_X_def WATER_RES_Z_def)
  have i: "interior 33 32" by (simp add: interior_def WATER_RES_X_def WATER_RES_Z_def)
  have a: "heightAt (updateWaterPhysics delta ?w) 33 32 \<noteq> 0"
    using disturbed_spread [OF interior_centre d r] i by (simp add: gridIndex_centre)
  have z: "heightAt ?w 33 32 = 0" "heightAt ?w 32 32 = 0" "heightAt ?w 34 32 = 0" "heightAt ?w 33 31 = 0" "heightAt ?w 33 33 = 0"
    "velocityAt ?w 33 32 = 0"
    using dw(2,3) [unfolded gridIndex_centre] by (simp_all add: WATER_RES_X_def WATER_RES_Z_def)
  have "newVel delta ?w ?w 33 32 = 0" using z by (simp add: newVel_def)
  then have b: "heightAt (updateWaterPhysicsSync delta ?w) 33 32 = 0"
    using updateWaterPhysicsSync_equation [OF dw(1) i, of delta] z by simp
  from a b show "updateWaterPhysics delta ?w \<noteq> updateWaterPhysicsSync delta ?w" by auto
qed

theorem inplace_differs_from_synchronous_witness:
  "wellFormed stillWater \<and> interior 1 1 \<and> (0::real) < 1 / 60
   \<and> heightAt (updateWaterPhysics (1 / 60) stillWater) 1 1
      = heightAt stillWater 1 1
          + (velocityAt stillWater 1 1
             + ((heightAt (updateWaterPhysics (1 / 60) stillWater) (1 - 1) 1 + heightAt stillWater (1 + 1) 1
                 + heightAt (updateWaterPhysics (1 / 60) stillWater) 1 (1 - 1) + heightAt stillWater 1 (1 + 1)) / 4
                - heightAt stillWater 1 1) * WAVE_SPEED * (1 / 60)) * DAMPING * (1 / 60)
   \<and> updateWaterPhysics (1 / 60) (disturbWater 0 0 1.0 stillWater)
          \<noteq> updateWaterPhysicsSync (1 / 60) (disturbWater 0 0 1.0 stillWater)"
proof -
  have i: "interior 1 1" by (simp add: interior_def WATER_RES_X_def WATER_RES_Z_def)
  have d: "(0::real) < 1 / 60" by simp
  from inplace_differs_from_synchronous [of stillWater 1 1 "1 / 60"] wellFormed_stillWater i d
  show ?thesis by blast
qed

subsection \<open>The kelp chains\<close>

lemma constrainPoint_other:
  "i \<noteq> j \<Longrightarrow> points (constrainPoint j pl) ! i = points pl ! i"
  by (simp add: constrainPoint_def Let_def)

lemma constrainPoint_length [simp]: "length (points (constrainPoint j pl)) = length (points pl)"
  by (simp add: constrainPoint_def Let_def)

lemma constrainPoint_here:
  "j < length (points pl) \<Longrightarrow>
   points (constrainPoint j pl) ! j =
     add (points pl ! (j - 1))
       (multiplyScalar (normalize (subVectors (points pl ! j) (points pl ! (j - 1)))) jointLength)"
  by (simp add: constrainPoint_def Let_def)

lemma fold_constrain_length [simp]:
  "length (points (fold constrainPoint js pl)) = length (points pl)"
  by (induction js arbitrary: pl) simp_all

text \<open>
  The constraint pass over the points below \<open>n\<close>: the anchor and the points from \<open>n\<close> on
  are untouched, and each point below \<open>n\<close> sits on its corrected predecessor plus the
  normalized direction to its old position times the joint length.
\<close>

lemma fold_constrain:
  "n \<le> length (points pl) \<Longrightarrow>
   (\<forall>i. (i = 0 \<or> n \<le> i) \<longrightarrow> points (fold constrainPoint [1..<n] pl) ! i = points pl ! i)
   \<and> (\<forall>j. 1 \<le> j \<and> j < n \<longrightarrow>
         points (fold constrainPoint [1..<n] pl) ! j =
           add (points (fold constrainPoint [1..<n] pl) ! (j - 1))
             (multiplyScalar
                (normalize (subVectors (points pl ! j)
                                       (points (fold constrainPoint [1..<n] pl) ! (j - 1))))
                jointLength))"
proof (induction n)
  case 0
  then show ?case by simp
next
  case (Suc n)
  show ?case
  proof (cases "n = 0")
    case True
    then show ?thesis by simp
  next
    case False
    define q where "q = fold constrainPoint [1..<n] pl"
    have n: "1 \<le> n" "n \<le> length (points pl)" "n < length (points q)"
      using False Suc.prems by (simp_all add: q_def)
    have step: "fold constrainPoint [1..<Suc n] pl = constrainPoint n q"
      using n(1) by (simp add: q_def)
    have IH1: "\<And>i. i = 0 \<or> n \<le> i \<Longrightarrow> points q ! i = points pl ! i"
      and IH2: "\<And>j. 1 \<le> j \<Longrightarrow> j < n \<Longrightarrow> points q ! j =
           add (points q ! (j - 1))
             (multiplyScalar (normalize (subVectors (points pl ! j) (points q ! (j - 1)))) jointLength)"
      using Suc.IH [OF n(2)] unfolding q_def by blast+
    have A: "points (constrainPoint n q) ! i = points pl ! i" if "i = 0 \<or> Suc n \<le> i" for i
    proof -
      have "i \<noteq> n" using that n(1) by auto
      then have "points (constrainPoint n q) ! i = points q ! i" by (rule constrainPoint_other)
      also have "\<dots> = points pl ! i" using that by (intro IH1) auto
      finally show ?thesis .
    qed
    have B: "points (constrainPoint n q) ! j =
           add (points (constrainPoint n q) ! (j - 1))
             (multiplyScalar (normalize (subVectors (points pl ! j)
                (points (constrainPoint n q) ! (j - 1)))) jointLength)"
      if "1 \<le> j" "j < Suc n" for j
    proof (cases "j = n")
      case True
      have prev: "points (constrainPoint n q) ! (n - 1) = points q ! (n - 1)"
        using n(1) by (intro constrainPoint_other) auto
      have "points q ! n = points pl ! n" by (intro IH1) simp
      then show ?thesis
        unfolding True prev using constrainPoint_here [OF n(3)] by simp
    next
      case False
      then have j: "j < n" using that by simp
      have "points (constrainPoint n q) ! j = points q ! j"
        "points (constrainPoint n q) ! (j - 1) = points q ! (j - 1)"
        using j by (auto intro!: constrainPoint_other)
      then show ?thesis using IH2 [OF that(1) j] by simp
    qed
    show ?thesis unfolding step using A B by blast
  qed
qed

lemma distanceTo_add_multiplyScalar:
  "distanceTo a (add a (multiplyScalar d k)) = \<bar>k\<bar> * length3 d"
proof -
  have "subVectors a (add a (multiplyScalar d k)) = multiplyScalar d (- k)"
    by (simp add: subVectors_def add_def multiplyScalar_def)
  then show ?thesis
    by (simp add: distanceTo_def distanceToSquared_def length3_multiplyScalar
        flip: length3_def)
qed

lemma jointLength_pos: "0 < jointLength"
  by (simp add: jointLength_def PLANT_LEN_def SEGMENTS_def)

text \<open>
  What the constraint pass achieves: a joint has the joint length, unless the point came
  to lie on its corrected predecessor; then the direction is the zero vector and the
  joint has length 0.
\<close>

lemma lengthConstraint_joints:
  assumes "SEGMENTS \<le> length (points pl)" "1 \<le> j" "j < SEGMENTS"
  shows "distanceTo (points (lengthConstraint pl) ! (j - 1)) (points (lengthConstraint pl) ! j)
     = (if points pl ! j = points (lengthConstraint pl) ! (j - 1) then 0 else jointLength)"
proof -
  let ?q = "lengthConstraint pl"
  let ?d = "subVectors (points pl ! j) (points ?q ! (j - 1))"
  have eq: "points ?q ! j = add (points ?q ! (j - 1)) (multiplyScalar (normalize ?d) jointLength)"
    using fold_constrain [OF assms(1)] assms(2,3) unfolding lengthConstraint_def by blast
  have z: "?d = zero3 \<longleftrightarrow> points pl ! j = points ?q ! (j - 1)"
    by (cases "points pl ! j"; cases "points ?q ! (j - 1)") (simp add: subVectors_def zero3_def)
  have "distanceTo (points ?q ! (j - 1)) (points ?q ! j) = jointLength * length3 (normalize ?d)"
    using jointLength_pos by (subst eq) (simp add: distanceTo_add_multiplyScalar)
  then show ?thesis using z length3_normalize [of ?d] by auto
qed

lemma springPoint_other:
  "i \<noteq> j \<Longrightarrow> points (springPoint c j pl) ! i = points pl ! i"
  by (simp add: springPoint_def Let_def)

lemma springPoint_length [simp]: "length (points (springPoint c j pl)) = length (points pl)"
  by (simp add: springPoint_def Let_def)

lemma fold_spring_length [simp]:
  "length (points (fold (springPoint c) js pl)) = length (points pl)"
  by (induction js arbitrary: pl) simp_all

lemma pushPoint_points [simp]: "points (pushPoint fishPos j pl) = points pl"
  by (simp add: pushPoint_def Let_def)

lemma fold_push_points [simp]: "points (fold (pushPoint fishPos) js pl) = points pl"
  by (induction js arbitrary: pl) simp_all

lemma fold_fish_points [simp]:
  "points (fold (\<lambda>fishPos. fold (pushPoint fishPos) js) fs pl) = points pl"
  by (induction fs arbitrary: pl) simp_all

lemma springPass_length [simp]:
  "length (points (springPass c fs pl)) = length (points pl)"
  by (simp add: springPass_def Let_def)

lemma fold_spring_later:
  "\<forall>j \<in> set js. i < j \<Longrightarrow> points (fold (springPoint c) js pl) ! i = points pl ! i"
  by (induction js arbitrary: pl) (simp_all add: springPoint_other)

lemma fold_spring_upto:
  assumes "1 \<le> k" "k < n"
  shows "points (fold (springPoint c) [1..<n] pl) ! k
       = points (fold (springPoint c) [1..<Suc k] pl) ! k"
proof -
  have "[1..<Suc k + (n - Suc k)] = [1..<Suc k] @ [Suc k..<Suc k + (n - Suc k)]"
    using assms by (intro upt_add_eq_append) simp
  then have "[1..<n] = [1..<Suc k] @ [Suc k..<n]" using assms by simp
  then show ?thesis by (simp add: fold_spring_later)
qed

lemma kelpTick_joints:
  assumes "SEGMENTS \<le> length (points pl)" "SEGMENTS \<le> length (velocities pl)"
    and "1 \<le> j" "j < SEGMENTS"
  shows "\<exists>pl'. kelpTick c fs pl = Inr pl'
     \<and> distanceTo (points pl' ! (j - 1)) (points pl' ! j)
        = (if points (springPass c fs pl) ! j = points pl' ! (j - 1) then 0 else jointLength)"
proof -
  have "SEGMENTS \<le> length (points (springPass c fs pl))" using assms(1) by simp
  from lengthConstraint_joints [OF this assms(3,4)] assms(1,2)
  show ?thesis by (simp add: kelpTick_def)
qed

lemma bentPlant_sprung:
  "points (springPass stillClocks [] bentPlant) ! 0 = Vec3 0 0 0"
  "points (springPass stillClocks [] bentPlant) ! 1 = Vec3 0 jointLength 0"
  "points (springPass stillClocks [] bentPlant) ! 2 = Vec3 0 jointLength 0"
proof -
  let ?pl1 = "bentPlant\<lparr>points := (points bentPlant)[0 := base bentPlant],
                   velocities := (velocities bentPlant)[0 := Vec3 0 0 0]\<rparr>"
  have sp: "springPass stillClocks [] bentPlant = fold (springPoint stillClocks) [1..<SEGMENTS] ?pl1"
    by (simp add: springPass_def Let_def)
  have s: "(1::nat) < SEGMENTS" "(2::nat) < SEGMENTS" by (simp_all add: SEGMENTS_def)
  show "points (springPass stillClocks [] bentPlant) ! 0 = Vec3 0 0 0"
    unfolding sp by (subst fold_spring_later) (simp_all add: bentPlant_def)
  have "points (springPass stillClocks [] bentPlant) ! 1
      = points (fold (springPoint stillClocks) [1..<Suc 1] ?pl1) ! 1"
    unfolding sp using s(1) by (intro fold_spring_upto) simp_all
  also have "\<dots> = Vec3 0 jointLength 0"
    by (simp add: springPoint_def Let_def bentPlant_def stillClocks_def add_def
        multiplyScalar_def)
  finally show "points (springPass stillClocks [] bentPlant) ! 1 = Vec3 0 jointLength 0" .
  have "points (springPass stillClocks [] bentPlant) ! 2
      = points (fold (springPoint stillClocks) [1..<Suc 2] ?pl1) ! 2"
    unfolding sp using s(2) by (intro fold_spring_upto) simp_all
  also have "\<dots> = Vec3 0 jointLength 0"
    by (simp add: springPoint_def Let_def bentPlant_def stillClocks_def add_def
        multiplyScalar_def upt_rec)
  finally show "points (springPass stillClocks [] bentPlant) ! 2 = Vec3 0 jointLength 0" .
qed

lemma length3_along_y: "length3 (Vec3 0 y 0) = \<bar>y\<bar>"
  by (simp add: length3_def lengthSq_def)

text \<open>
  The degenerate case on the plant \<open>bentPlant\<close>, with no fish near and clocks that return
  0 for every \<open>getDelta()\<close> in the loop: the spring step moves the third point onto the
  second, the constraint pass normalizes the zero vector, and after the frame the joint
  between the points 1 and 2 has length 0. Whether the loop can bring a new plant into
  such a state is left open.
\<close>

lemma bentPlant_joint_collapses:
  "kelpTick stillClocks [] bentPlant = Inr (lengthConstraint (springPass stillClocks [] bentPlant))
   \<and> distanceTo (points (lengthConstraint (springPass stillClocks [] bentPlant)) ! 1)
                 (points (lengthConstraint (springPass stillClocks [] bentPlant)) ! 2) = 0
   \<and> jointLength \<noteq> 0"
proof -
  let ?s = "springPass stillClocks [] bentPlant"
  let ?q = "lengthConstraint ?s"
  have len: "SEGMENTS \<le> length (points ?s)" by (simp add: bentPlant_def SEGMENTS_def)
  have t: "kelpTick stillClocks [] bentPlant = Inr ?q"
    by (simp add: kelpTick_def bentPlant_def SEGMENTS_def)
  note fc = fold_constrain [OF len, folded lengthConstraint_def]
  have q0: "points ?q ! 0 = Vec3 0 0 0" using fc bentPlant_sprung(1) by simp
  have "points ?q ! 1 = add (points ?q ! 0)
       (multiplyScalar (normalize (subVectors (points ?s ! 1) (points ?q ! 0))) jointLength)"
    using fc by (simp add: SEGMENTS_def)
  also have "\<dots> = Vec3 0 jointLength 0"
    unfolding q0 bentPlant_sprung(2) using jointLength_pos
    by (simp add: subVectors_def normalize_def length3_along_y
        divideScalar_def multiplyScalar_def add_def)
  finally have q1: "points ?q ! 1 = Vec3 0 jointLength 0" .
  have "(1::nat) \<le> 2" "(2::nat) < SEGMENTS" by (simp_all add: SEGMENTS_def)
  from lengthConstraint_joints [OF len this]
  have "distanceTo (points ?q ! (2 - 1)) (points ?q ! 2)
      = (if points ?s ! 2 = points ?q ! (2 - 1) then 0 else jointLength)" .
  moreover have "(2::nat) - 1 = 1" by simp
  ultimately have "distanceTo (points ?q ! 1) (points ?q ! 2) = 0"
    unfolding bentPlant_sprung(3) by (simp only: q1 if_True refl)
  with t jointLength_pos show ?thesis by simp
qed

subsection \<open>The curve sampler\<close>

lemma bindE_Inr [simp]: "bindE (Inr x) f = f x"
  and bindE_Inl [simp]: "bindE (Inl e) f = Inl e"
  by (simp_all add: bindE_def)

lemma calc_init_0: "calc (init x0 x1 t0 t1) 0 = x0"
  by (simp add: calc_def init_def)

lemma calc_init_1: "calc (init x0 x1 t0 t1) 1 = x1"
  by (simp add: calc_def init_def)

lemma segmentPoint_0: "segmentPoint p0 p1 p2 p3 0 = p1"
  by (simp add: segmentPoint_def initNonuniformCatmullRom_def Let_def calc_init_0)

lemma segmentPoint_1: "segmentPoint p0 p1 p2 p3 1 = p2"
  by (simp add: segmentPoint_def initNonuniformCatmullRom_def Let_def calc_init_1)

lemma pointAt_inside: "0 \<le> i \<Longrightarrow> i < int (length ps) \<Longrightarrow> pointAt ps i = Inr (ps ! nat i)"
  by (simp add: pointAt_def)

lemma jsRem_inside: "0 \<le> a \<Longrightarrow> a < b \<Longrightarrow> jsRem a b = a"
  by (cases "a = 0") (simp_all add: jsRem_def)

lemma locate_open_range:
  assumes "\<not> closed c" "2 \<le> length (curvePoints c)" "0 \<le> t" "t \<le> 1"
  shows "0 \<le> fst (locate c t)" "fst (locate c t) + 1 < int (length (curvePoints c))"
proof -
  let ?l = "int (length (curvePoints c))"
  let ?p = "real_of_int (?l - 1) * t"
  have l: "2 \<le> ?l" using assms(2) by simp
  have p0: "0 \<le> ?p" using l assms(3) by simp
  have "?p \<le> real_of_int (?l - 1) * 1" using l assms(4) by (intro mult_left_mono) simp_all
  then have p1: "?p \<le> real_of_int (?l - 1)" by simp
  have f0: "0 \<le> \<lfloor>?p\<rfloor>" using p0 by simp
  have f1: "\<lfloor>?p\<rfloor> \<le> ?l - 1" using floor_mono [OF p1] by simp
  have loc: "locate c t = (if ?p - real_of_int \<lfloor>?p\<rfloor> = 0 \<and> \<lfloor>?p\<rfloor> = ?l - 1 then (?l - 2, 1)
                           else (\<lfloor>?p\<rfloor>, ?p - real_of_int \<lfloor>?p\<rfloor>))"
    using assms(1) by (simp only: locate_def Let_def if_False)
  show "0 \<le> fst (locate c t)" unfolding loc using f0 l by simp
  show "fst (locate c t) + 1 < ?l"
  proof (cases "\<lfloor>?p\<rfloor> = ?l - 1")
    case True
    then have "real_of_int (?l - 1) \<le> ?p" by (metis of_int_floor_le)
    with p1 have "?p = real_of_int (?l - 1)" by simp
    then have "?p - real_of_int \<lfloor>?p\<rfloor> = 0" using True by simp
    then show ?thesis unfolding loc using True l by simp
  next
    case False
    with f1 have "\<lfloor>?p\<rfloor> < ?l - 1" by simp
    then show ?thesis unfolding loc using False by simp
  qed
qed

lemma getPointOnCurve_open:
  assumes o: "\<not> closed c" and l: "2 \<le> length (curvePoints c)" and t: "0 \<le> t" "t \<le> 1"
  shows "\<exists>p0 p3. getPointOnCurve c t =
     Inr (segmentPoint p0 (curvePoints c ! nat (fst (locate c t)))
            (curvePoints c ! nat (fst (locate c t) + 1)) p3 (snd (locate c t)))"
proof -
  let ?ps = "curvePoints c"
  let ?l = "int (length ?ps)"
  let ?i = "fst (locate c t)"
  note r = locate_open_range [OF o l t]
  have ends: "pointAt ?ps 0 = Inr (?ps ! 0)" "pointAt ?ps 1 = Inr (?ps ! 1)"
    "pointAt ?ps (?l - 1) = Inr (?ps ! nat (?l - 1))"
    "pointAt ?ps (?l - 2) = Inr (?ps ! nat (?l - 2))"
    using l by (auto simp: pointAt_def)
  have A: "\<exists>p0. (if closed c \<or> ?i > 0 then pointAt ?ps (jsRem (?i - 1) ?l)
                else bindE (pointAt ?ps 0) (\<lambda>a. bindE (pointAt ?ps 1) (\<lambda>b.
                       Inr (add (subVectors a b) a)))) = Inr p0"
  proof (cases "?i > 0")
    case True
    then have "jsRem (?i - 1) ?l = ?i - 1" using r by (intro jsRem_inside) simp_all
    then show ?thesis using True r by (simp add: pointAt_inside)
  next
    case False
    then show ?thesis using o by (simp add: ends)
  qed
  have B: "pointAt ?ps (jsRem ?i ?l) = Inr (?ps ! nat ?i)"
    using r by (simp add: jsRem_inside pointAt_inside)
  have C: "pointAt ?ps (jsRem (?i + 1) ?l) = Inr (?ps ! nat (?i + 1))"
    using r by (simp add: jsRem_inside pointAt_inside)
  have D: "\<exists>p3. (if closed c \<or> ?i + 2 < ?l then pointAt ?ps (jsRem (?i + 2) ?l)
                         else bindE (pointAt ?ps (?l - 1)) (\<lambda>a. bindE (pointAt ?ps (?l - 2)) (\<lambda>b.
                                Inr (add (subVectors a b) a)))) = Inr p3"
  proof (cases "?i + 2 < ?l")
    case True
    then have "jsRem (?i + 2) ?l = ?i + 2" using r by (intro jsRem_inside) simp_all
    then show ?thesis using True r by (simp add: pointAt_inside)
  next
    case False
    then show ?thesis using o by (simp add: ends)
  qed
  obtain p0 p3 where p0: "(if closed c \<or> ?i > 0 then pointAt ?ps (jsRem (?i - 1) ?l)
                else bindE (pointAt ?ps 0) (\<lambda>a. bindE (pointAt ?ps 1) (\<lambda>b.
                       Inr (add (subVectors a b) a)))) = Inr p0"
    and p3: "(if closed c \<or> ?i + 2 < ?l then pointAt ?ps (jsRem (?i + 2) ?l)
                         else bindE (pointAt ?ps (?l - 1)) (\<lambda>a. bindE (pointAt ?ps (?l - 2)) (\<lambda>b.
                                Inr (add (subVectors a b) a)))) = Inr p3"
    using A D by blast
  have "getPointOnCurve c t =
     Inr (segmentPoint (if \<not> (closed c \<or> ?i > 0) \<and> \<not> (closed c \<or> ?i + 2 < ?l) then p3 else p0)
            (?ps ! nat ?i) (?ps ! nat (?i + 1)) p3 (snd (locate c t)))"
    unfolding getPointOnCurve_def Let_def p0 p3 B C by simp
  then show ?thesis by blast
qed

lemma jsRem_nonneg: "0 \<le> a \<Longrightarrow> 0 < b \<Longrightarrow> jsRem a b = a mod b"
  by (cases "a = 0") (simp_all add: jsRem_def)

lemma pointAt_mod:
  "0 < length ps \<Longrightarrow> 0 \<le> a
   \<Longrightarrow> pointAt ps (jsRem a (int (length ps))) = Inr (ps ! nat (a mod int (length ps)))"
  by (simp add: jsRem_nonneg pointAt_def)

lemma locate_closed_range:
  assumes "closed c" "1 \<le> length (curvePoints c)" "0 \<le> t" "t \<le> 1"
  shows "1 \<le> fst (locate c t)"
proof -
  let ?l = "int (length (curvePoints c))"
  let ?p = "real_of_int ?l * t"
  have l: "1 \<le> ?l" using assms(2) by simp
  have p0: "0 \<le> ?p" using l assms(3) by simp
  have f0: "0 \<le> \<lfloor>?p\<rfloor>" using p0 by simp
  have loc: "fst (locate c t)
      = \<lfloor>?p\<rfloor> + (if \<lfloor>?p\<rfloor> > 0 then 0
                      else (\<lfloor>real_of_int \<bar>\<lfloor>?p\<rfloor>\<bar> / real_of_int ?l\<rfloor> + 1) * ?l)"
    using assms(1) by (simp add: locate_def Let_def)
  show ?thesis
  proof (cases "\<lfloor>?p\<rfloor> > 0")
    case True
    then show ?thesis unfolding loc by simp
  next
    case False
    with f0 have z: "\<lfloor>?p\<rfloor> = 0" by linarith
    show ?thesis unfolding loc z using l by simp
  qed
qed

lemma getPointOnCurve_closed:
  assumes o: "closed c" and l: "1 \<le> length (curvePoints c)" and t: "0 \<le> t" "t \<le> 1"
  shows "\<exists>p0 p2 p3. getPointOnCurve c t =
     Inr (segmentPoint p0
            (curvePoints c ! nat (fst (locate c t) mod int (length (curvePoints c))))
            p2 p3 (snd (locate c t)))"
proof -
  let ?ps = "curvePoints c"
  let ?i = "fst (locate c t)"
  note r = locate_closed_range [OF o l t]
  have n: "0 < length ?ps" using l by (cases "curvePoints c") simp_all
  have A: "pointAt ?ps (jsRem (?i - 1) (int (length ?ps)))
      = Inr (?ps ! nat ((?i - 1) mod int (length ?ps)))"
    using r by (intro pointAt_mod [OF n]) simp
  have B: "pointAt ?ps (jsRem ?i (int (length ?ps))) = Inr (?ps ! nat (?i mod int (length ?ps)))"
    using r by (intro pointAt_mod [OF n]) simp
  have C: "pointAt ?ps (jsRem (?i + 1) (int (length ?ps)))
      = Inr (?ps ! nat ((?i + 1) mod int (length ?ps)))"
    using r by (intro pointAt_mod [OF n]) simp
  have D: "pointAt ?ps (jsRem (?i + 2) (int (length ?ps)))
      = Inr (?ps ! nat ((?i + 2) mod int (length ?ps)))"
    using r by (intro pointAt_mod [OF n]) simp
  have "getPointOnCurve c t =
     Inr (segmentPoint (?ps ! nat ((?i - 1) mod int (length ?ps)))
            (?ps ! nat (?i mod int (length ?ps)))
            (?ps ! nat ((?i + 1) mod int (length ?ps)))
            (?ps ! nat ((?i + 2) mod int (length ?ps))) (snd (locate c t)))"
    unfolding getPointOnCurve_def Let_def using o by (simp add: A B C D)
  then show ?thesis by blast
qed

lemma getPointOnCurve_closed_first:
  assumes "closed c" "1 \<le> length (curvePoints c)"
  shows "getPointOnCurve c 0 = Inr (curvePoints c ! 0)"
proof -
  have i: "locate c 0 = (int (length (curvePoints c)), 0)"
    using assms by (simp add: locate_def)
  from getPointOnCurve_closed [OF assms, of 0] show ?thesis
    by (auto simp: i segmentPoint_0)
qed

lemma getPointOnCurve_closed_last:
  assumes "closed c" "1 \<le> length (curvePoints c)"
  shows "getPointOnCurve c 1 = Inr (curvePoints c ! 0)"
proof -
  have i: "locate c 1 = (int (length (curvePoints c)), 0)"
    using assms by (simp add: locate_def)
  from getPointOnCurve_closed [OF assms, of 1] show ?thesis
    by (auto simp: i segmentPoint_0)
qed

text \<open>
  What follows holds for every curve whose \<open>getPoint\<close> returns a point for each
  parameter from 0 to 1, as those of the open and of the closed curves do.
\<close>

lemma getPointOnCurve_total:
  assumes "2 \<le> length (curvePoints c)" "0 \<le> t" "t \<le> 1"
  shows "\<exists>v. getPointOnCurve c t = Inr v"
proof (cases "closed c")
  case True
  have "1 \<le> length (curvePoints c)" using assms(1) by simp
  from getPointOnCurve_closed [OF True this assms(2,3)] show ?thesis by blast
next
  case False
  from getPointOnCurve_open [OF False assms] show ?thesis by blast
qed

lemma getPointOnCurve_first:
  assumes "\<not> closed c" "2 \<le> length (curvePoints c)"
  shows "getPointOnCurve c 0 = Inr (curvePoints c ! 0)"
proof -
  have i: "locate c 0 = (0, 0)"
    using assms by (simp add: locate_def)
  from getPointOnCurve_open [OF assms, of 0] show ?thesis
    by (auto simp: i segmentPoint_0)
qed

lemma getPointOnCurve_last:
  assumes "\<not> closed c" "2 \<le> length (curvePoints c)"
  shows "getPointOnCurve c 1 = Inr (curvePoints c ! (length (curvePoints c) - 1))"
proof -
  have i: "locate c 1 = (int (length (curvePoints c)) - 2, 1)"
    using assms by (simp add: locate_def)
  have "nat (int (length (curvePoints c)) - 2 + 1) = length (curvePoints c) - 1"
    using assms(2) by simp
  with getPointOnCurve_open [OF assms, of 1] show ?thesis
    by (auto simp: i segmentPoint_1)
qed

lemma curvePt_ok:
  assumes "2 \<le> length (curvePoints c)" "k \<le> arcLengthDivisions"
  shows "getPointOnCurve c (real k / real arcLengthDivisions) = Inr (curvePt c k)"
proof -
  have "0 \<le> real k / real arcLengthDivisions" "real k / real arcLengthDivisions \<le> 1"
    using assms(2) by (simp_all add: arcLengthDivisions_def)
  from getPointOnCurve_total [OF assms(1) this] show ?thesis
    by (auto simp: curvePt_def)
qed

lemma lengthsLoop_spec:
  assumes o: "2 \<le> length (curvePoints c)"
  shows "n \<le> arcLengthDivisions + 1 \<Longrightarrow> 1 \<le> j \<Longrightarrow>
     lengthsLoop c [j..<n] (curvePt c (j - 1)) s cache
       = Inr (cache @ map (\<lambda>k. s + (\<Sum>m = j..k. stepLen c m)) [j..<n])"
proof (induction "n - j" arbitrary: j s cache)
  case 0
  then show ?case by simp
next
  case (Suc d)
  then have jn: "j < n" by simp
  then have j: "j \<le> arcLengthDivisions" using Suc.prems by simp
  have up: "[j..<n] = j # [Suc j..<n]" using jn by (rule upt_conv_Cons)
  have d: "d = n - Suc j" using Suc.hyps(2) by simp
  have st: "distanceTo (curvePt c j) (curvePt c (j - 1)) = stepLen c j"
    by (simp add: stepLen_def)
  have IH: "lengthsLoop c [Suc j..<n] (curvePt c j) (s + stepLen c j) (cache @ [s + stepLen c j])
      = Inr ((cache @ [s + stepLen c j])
             @ map (\<lambda>k. (s + stepLen c j) + (\<Sum>m = Suc j..k. stepLen c m)) [Suc j..<n])"
    using Suc.hyps(1) [OF d Suc.prems(1), of "s + stepLen c j" "cache @ [s + stepLen c j]"]
    by simp
  have sums: "map (\<lambda>k. (s + stepLen c j) + (\<Sum>m = Suc j..k. stepLen c m)) [Suc j..<n]
      = map (\<lambda>k. s + (\<Sum>m = j..k. stepLen c m)) [Suc j..<n]"
  proof (rule map_cong [OF refl])
    fix k assume "k \<in> set [Suc j..<n]"
    then have "j \<le> k" by simp
    then have "(\<Sum>m = j..k. stepLen c m) = stepLen c j + (\<Sum>m = Suc j..k. stepLen c m)"
      by (simp add: sum.atLeast_Suc_atMost)
    then show "(s + stepLen c j) + (\<Sum>m = Suc j..k. stepLen c m) = s + (\<Sum>m = j..k. stepLen c m)"
      by simp
  qed
  have "lengthsLoop c (j # [Suc j..<n]) (curvePt c (j - 1)) s cache
      = lengthsLoop c [Suc j..<n] (curvePt c j) (s + stepLen c j) (cache @ [s + stepLen c j])"
    unfolding lengthsLoop.simps curvePt_ok [OF o j] bindE_Inr st ..
  also note IH
  finally show ?case unfolding up sums by simp
qed

lemma getLengths_table:
  assumes o: "2 \<le> length (curvePoints c)"
  shows "getLengths c = Inr (map (arcLen c) [0..<arcLengthDivisions + 1])"
proof -
  have z: "getPointOnCurve c 0 = Inr (curvePt c 0)"
    using curvePt_ok [OF o, of 0] by simp
  have "lengthsLoop c [1..<arcLengthDivisions + 1] (curvePt c (1 - 1)) 0 [0]
      = Inr ([0] @ map (\<lambda>k. 0 + (\<Sum>m = 1..k. stepLen c m)) [1..<arcLengthDivisions + 1])"
    by (rule lengthsLoop_spec [OF o]) simp_all
  moreover have "[0..<arcLengthDivisions + 1] = 0 # [1..<arcLengthDivisions + 1]"
    by (simp add: upt_conv_Cons)
  ultimately show ?thesis
    by (simp add: getLengths_def z arcLen_def [abs_def])
qed

lemma stepLen_nonneg [simp]: "0 \<le> stepLen c m"
  by (simp add: stepLen_def distanceTo_def distanceToSquared_def)

lemma arcLen_mono: "j \<le> k \<Longrightarrow> arcLen c j \<le> arcLen c k"
  unfolding arcLen_def by (intro sum_mono2) auto

lemma arcLen_0 [simp]: "arcLen c 0 = 0"
  by (simp add: arcLen_def)

lemma distanceTo_zero_iff: "distanceTo a b = 0 \<longleftrightarrow> a = b"
proof -
  have "lengthSq (subVectors a b) = 0 \<longleftrightarrow> a = b"
    unfolding lengthSq_zero_iff by (cases a; cases b) (simp add: subVectors_def zero3_def)
  then show ?thesis by (simp add: distanceTo_def distanceToSquared_def)
qed

lemma steps_zero_same:
  "j \<le> k \<Longrightarrow> (\<forall>m. j < m \<and> m \<le> k \<longrightarrow> stepLen c m = 0) \<Longrightarrow> curvePt c k = curvePt c j"
proof (induction k)
  case 0
  then show ?case by simp
next
  case (Suc k)
  show ?case
  proof (cases "j = Suc k")
    case True
    then show ?thesis by simp
  next
    case False
    then have jk: "j \<le> k" using Suc.prems(1) by simp
    have "stepLen c (Suc k) = 0" using Suc.prems(2) jk by simp
    then have "curvePt c (Suc k) = curvePt c k"
      by (simp add: stepLen_def distanceTo_zero_iff)
    moreover have "curvePt c k = curvePt c j" using Suc.IH [OF jk] Suc.prems(2) by simp
    ultimately show ?thesis by simp
  qed
qed

lemma arcLen_same:
  assumes "j \<le> k" "arcLen c j = arcLen c k"
  shows "curvePt c k = curvePt c j"
proof (rule steps_zero_same [OF assms(1)], intro allI impI)
  fix m assume m: "j < m \<and> m \<le> k"
  have "j \<le> m - 1" using m by linarith
  then have "arcLen c j + stepLen c m \<le> arcLen c (m - 1) + stepLen c m"
    using arcLen_mono [of j "m - 1" c] by simp
  also have "\<dots> = arcLen c m" using m by (cases m) (simp_all add: arcLen_def)
  also have "\<dots> \<le> arcLen c k" using m by (intro arcLen_mono) simp
  finally show "stepLen c m = 0" using assms(2) stepLen_nonneg [of c m] by linarith
qed

lemma midpoint:
  "low \<le> high \<Longrightarrow> \<lfloor>real_of_int low + real_of_int (high - low) / 2\<rfloor> = low + (high - low) div 2"
proof -
  have "\<lfloor>real_of_int (high - low) / 2\<rfloor> = (high - low) div 2"
    using floor_divide_of_int_eq [of "high - low" 2] by simp
  then show ?thesis by simp
qed

lemma search_found:
  "0 \<le> low \<Longrightarrow> high < int (length a) \<Longrightarrow> low \<le> high + 1
    \<Longrightarrow> (\<forall>k. 0 \<le> k \<and> k < low \<longrightarrow> a ! nat k < t)
    \<Longrightarrow> (\<forall>k. high < k \<and> k < int (length a) \<longrightarrow> t < a ! nat k)
    \<Longrightarrow> (\<And>j k. j \<le> k \<Longrightarrow> k < length a \<Longrightarrow> a ! j \<le> a ! k)
    \<Longrightarrow> found a t (search a t low high)"
proof (induction a t low high rule: search.induct)
  case (1 a t low high)
  show ?case
  proof (cases "low \<le> high")
    case False
    then have hl: "high = low - 1" using "1.prems"(3) by simp
    have "found a t high"
      unfolding found_def using "1.prems"(1,2,4,5) hl by auto
    then show ?thesis using False by (subst search.simps) simp
  next
    case True
    define i where "i = \<lfloor>real_of_int low + real_of_int (high - low) / 2\<rfloor>"
    have i: "low \<le> i" "i \<le> high" using True midpoint [OF True] by (simp_all add: i_def)
    have irng: "0 \<le> i" "nat i < length a" using i "1.prems"(1,2) by simp_all
    consider (less) "a ! nat i - t < 0" | (greater) "\<not> a ! nat i - t < 0" "a ! nat i - t > 0"
      | (equal) "\<not> a ! nat i - t < 0" "\<not> a ! nat i - t > 0" by blast
    then show ?thesis
    proof cases
      case less
      have below: "\<forall>k. 0 \<le> k \<and> k < i + 1 \<longrightarrow> a ! nat k < t"
      proof (intro allI impI)
        fix k assume k: "0 \<le> k \<and> k < i + 1"
        then have "a ! nat k \<le> a ! nat i" using irng by (intro "1.prems"(6)) auto
        then show "a ! nat k < t" using less by simp
      qed
      have "found a t (search a t (i + 1) high)"
        using "1.IH"(1) [OF True i_def refl less] irng(1) "1.prems"(2,5,6) i below by simp
      then show ?thesis using True less by (subst search.simps) (simp add: i_def Let_def)
    next
      case greater
      have above: "\<forall>k. i - 1 < k \<and> k < int (length a) \<longrightarrow> t < a ! nat k"
      proof (intro allI impI)
        fix k assume k: "i - 1 < k \<and> k < int (length a)"
        then have "a ! nat i \<le> a ! nat k" using irng by (intro "1.prems"(6)) auto
        then show "t < a ! nat k" using greater by simp
      qed
      have "found a t (search a t low (i - 1))"
        using "1.IH"(2) [OF True i_def refl greater] "1.prems"(1,2,4,6) i above by simp
      then show ?thesis using True greater by (subst search.simps) (simp add: i_def Let_def)
    next
      case equal
      then have "a ! nat i = t" by simp
      then have "found a t i" unfolding found_def using irng "1.prems"(2) i by simp
      then show ?thesis using True equal by (subst search.simps) (simp add: i_def Let_def)
    qed
  qed
qed

lemma getUtoTmapping_total:
  assumes o: "2 \<le> length (curvePoints c)" and u: "0 \<le> u" "u \<le> 1"
  shows "\<exists>t. getUtoTmapping c u = Inr t \<and> 0 \<le> t \<and> t \<le> 1
     \<and> (u = 0 \<or> u = 1 \<longrightarrow>
          (\<exists>i \<le> arcLengthDivisions. t = real i / real arcLengthDivisions
              \<and> arcLen c i = u * arcLen c arcLengthDivisions))"
proof -
  define n where "n = arcLengthDivisions"
  define A where "A = map (arcLen c) [0..<n + 1]"
  define T where "T = u * arcLen c n"
  define i where "i = search A T 0 (int n)"
  have n: "0 < n" by (simp add: n_def arcLengthDivisions_def)
  have lenA: "length A = n + 1" by (simp add: A_def)
  have nthA: "\<And>k. k \<le> n \<Longrightarrow> A ! k = arcLen c k"
    unfolding A_def by (subst nth_map) (simp_all del: upt_Suc)
  have gl: "getLengths c = Inr A" using getLengths_table [OF o] by (simp add: A_def n_def)
  have tot: "0 \<le> arcLen c n" using arcLen_mono [of 0 n c] by simp
  have T0: "0 \<le> T" using u tot by (simp add: T_def)
  have T1: "T \<le> arcLen c n"
    using mult_right_mono [OF u(2) tot] by (simp add: T_def)
  have monoA: "\<And>j k. j \<le> k \<Longrightarrow> k < length A \<Longrightarrow> A ! j \<le> A ! k"
    using lenA nthA by (simp add: arcLen_mono)
  have "found A T (search A T 0 (int n))"
    by (rule search_found) (use lenA monoA in simp_all)
  then have f: "- 1 \<le> i" "i < int n + 1"
    "(0 \<le> i \<and> A ! nat i = T)
        \<or> ((0 \<le> i \<longrightarrow> A ! nat i < T) \<and> (i + 1 < int n + 1 \<longrightarrow> T < A ! nat (i + 1)))"
    unfolding found_def i_def [symmetric] lenA by auto
  have i0: "0 \<le> i"
  proof (rule ccontr)
    assume "\<not> 0 \<le> i"
    then have "i = - 1" using f(1) by simp
    then have "T < A ! 0" using f(3) n by simp
    then show False using T0 nthA [of 0] by simp
  qed
  have ni: "nat i \<le> n" using f(2) by simp
  have val: "getUtoTmapping c u =
      (if A ! nat i = T then Inr (real_of_int i / real_of_int (int n))
       else if int n + 1 \<le> i + 1 then Inl TypeError
       else Inr ((real_of_int i + (T - A ! nat i) / (A ! nat (i + 1) - A ! nat i))
                 / real_of_int (int n)))"
    using i0 f(2)
    by (simp add: getUtoTmapping_def gl Let_def lenA i_def T_def nthA n_def)
  show ?thesis
  proof (cases "A ! nat i = T")
    case True
    have t: "getUtoTmapping c u = Inr (real (nat i) / real n)"
      using val True i0 by simp
    have "real (nat i) / real n \<le> 1" using ni n by simp
    moreover have "arcLen c (nat i) = u * arcLen c n" using True nthA [OF ni] by (simp add: T_def)
    ultimately show ?thesis using t ni unfolding n_def by auto
  next
    case False
    then have lt: "A ! nat i < T" and up: "i + 1 < int n + 1 \<longrightarrow> T < A ! nat (i + 1)"
      using f(3) i0 by auto
    have i1: "i + 1 < int n + 1"
    proof (rule ccontr)
      assume "\<not> i + 1 < int n + 1"
      then have "nat i = n" using f(2) by simp
      then show False using lt T1 nthA [of n] by simp
    qed
    then have gt: "T < A ! nat (i + 1)" using up by simp
    define fr where "fr = (T - A ! nat i) / (A ! nat (i + 1) - A ! nat i)"
    have seg: "0 < A ! nat (i + 1) - A ! nat i" using lt gt by simp
    have fr0: "0 \<le> fr" unfolding fr_def using lt seg by simp
    have fr1: "fr \<le> 1" unfolding fr_def using gt seg by simp
    have t: "getUtoTmapping c u = Inr ((real_of_int i + fr) / real n)"
      using val False i1 by (simp add: fr_def)
    have "real_of_int i + fr \<le> real n" using i1 fr1 by linarith
    then have le1: "(real_of_int i + fr) / real n \<le> 1" using n by simp
    have ge0: "0 \<le> (real_of_int i + fr) / real n" using i0 fr0 by simp
    have nu0: "u \<noteq> 0"
    proof
      assume "u = 0"
      then have "T = 0" by (simp add: T_def)
      then show False using lt nthA [OF ni] arcLen_mono [of 0 "nat i" c] by simp
    qed
    have nu1: "u \<noteq> 1"
    proof
      assume "u = 1"
      then have "T = arcLen c n" by (simp add: T_def)
      moreover have "A ! nat (i + 1) \<le> arcLen c n"
        using i1 i0 nthA [of "nat (i + 1)"] arcLen_mono [of "nat (i + 1)" n c] by simp
      ultimately show False using gt by simp
    qed
    show ?thesis using t le1 ge0 nu0 nu1 unfolding n_def by auto
  qed
qed

lemma getPointAt_ends:
  assumes o: "2 \<le> length (curvePoints c)" and u: "0 \<le> u" "u \<le> 1"
  shows "\<exists>v. getPointAt c u = Inr v
     \<and> (u = 0 \<longrightarrow> getPointOnCurve c 0 = Inr v)
     \<and> (u = 1 \<longrightarrow> getPointOnCurve c 1 = Inr v)"
proof -
  from getUtoTmapping_total [OF o u] obtain t where
    t: "getUtoTmapping c u = Inr t" "0 \<le> t" "t \<le> 1"
    and e: "u = 0 \<or> u = 1 \<longrightarrow>
          (\<exists>i \<le> arcLengthDivisions. t = real i / real arcLengthDivisions
              \<and> arcLen c i = u * arcLen c arcLengthDivisions)" by blast
  from getPointOnCurve_total [OF o t(2,3)] obtain v where v: "getPointOnCurve c t = Inr v"
    by blast
  have pa: "getPointAt c u = Inr v" by (simp add: getPointAt_def t(1) v)
  have first: "getPointOnCurve c 0 = Inr v" if "u = 0"
  proof -
    from e that obtain i where i: "i \<le> arcLengthDivisions" "t = real i / real arcLengthDivisions"
      "arcLen c i = 0" by auto
    have "curvePt c i = curvePt c 0" using arcLen_same [of 0 i c] i(3) by simp
    moreover have "Inr v = Inr (curvePt c i)" using curvePt_ok [OF o i(1)] v i(2) by simp
    moreover have "getPointOnCurve c 0 = Inr (curvePt c 0)"
      using curvePt_ok [OF o, of 0] by simp
    ultimately show ?thesis by simp
  qed
  have last: "getPointOnCurve c 1 = Inr v" if "u = 1"
  proof -
    from e that obtain i where i: "i \<le> arcLengthDivisions" "t = real i / real arcLengthDivisions"
      "arcLen c i = arcLen c arcLengthDivisions" by auto
    have "curvePt c arcLengthDivisions = curvePt c i" using arcLen_same [OF i(1) i(3)] .
    moreover have "Inr v = Inr (curvePt c i)" using curvePt_ok [OF o i(1)] v i(2) by simp
    moreover have "getPointOnCurve c 1 = Inr (curvePt c arcLengthDivisions)"
      using curvePt_ok [OF o, of arcLengthDivisions] by (simp add: arcLengthDivisions_def)
    ultimately show ?thesis by simp
  qed
  from pa first last show ?thesis by blast
qed

lemma collect_all:
  "(\<forall>d \<in> set ds. \<exists>v. f d = Inr v)
   \<Longrightarrow> \<exists>vs. collect f ds = Inr vs \<and> length vs = length ds
          \<and> (\<forall>k < length ds. f (ds ! k) = Inr (vs ! k))"
proof (induction ds)
  case Nil
  then show ?case by simp
next
  case (Cons d ds)
  then obtain v vs where v: "f d = Inr v" and vs: "collect f ds = Inr vs" "length vs = length ds"
    "\<forall>k < length ds. f (ds ! k) = Inr (vs ! k)" by auto
  have "\<forall>k < length (d # ds). f ((d # ds) ! k) = Inr ((v # vs) ! k)"
    using v vs(3) by (auto simp: nth_Cons split: nat.splits)
  then show ?case using v vs(1,2) by auto
qed

lemma collect_length: "collect f ds = Inr vs \<Longrightarrow> length vs = length ds"
proof (induction ds arbitrary: vs)
  case Nil
  then show ?case by simp
next
  case (Cons d ds)
  then show ?case by (auto simp: bindE_def split: sum.splits)
qed

lemma getSpacedPoints_length:
  "getSpacedPoints c divisions = Inr pts \<Longrightarrow> length pts = divisions + 1"
  using collect_length [of _ "[0..<divisions + 1]" pts]
  by (auto simp: getSpacedPoints_def split: if_splits)

lemma getSpacedPoints_ends:
  assumes o: "2 \<le> length (curvePoints c)" and s: "1 \<le> S"
  shows "\<exists>pts. getSpacedPoints c S = Inr pts \<and> length pts = S + 1
      \<and> getPointOnCurve c 0 = Inr (pts ! 0) \<and> getPointOnCurve c 1 = Inr (pts ! S)"
proof -
  let ?f = "\<lambda>d. getPointAt c (real d / real S)"
  have "\<forall>d \<in> set [0..<S + 1]. \<exists>v. ?f d = Inr v"
  proof
    fix d assume "d \<in> set [0..<S + 1]"
    then have "d \<le> S" by auto
    then have "0 \<le> real d / real S" "real d / real S \<le> 1" using s by simp_all
    from getPointAt_ends [OF o this] show "\<exists>v. ?f d = Inr v" by blast
  qed
  from collect_all [OF this] obtain pts where
    pts: "collect ?f [0..<S + 1] = Inr pts" "length pts = S + 1"
    "\<forall>k < S + 1. ?f ([0..<S + 1] ! k) = Inr (pts ! k)" by auto
  have k0: "?f 0 = Inr (pts ! 0)" using pts(3) by (metis add_0 nth_upt zero_less_Suc Suc_eq_plus1)
  have kS: "?f S = Inr (pts ! S)" using pts(3) by (metis add_0 nth_upt lessI Suc_eq_plus1)
  have "getPointOnCurve c 0 = Inr (pts ! 0)"
    using getPointAt_ends [OF o, of 0] k0 by simp
  moreover have "getPointOnCurve c 1 = Inr (pts ! S)"
    using getPointAt_ends [OF o, of 1] kS s by simp
  ultimately show ?thesis using pts(1,2) s by (simp add: getSpacedPoints_def)
qed

lemma getSpacedPoints_open:
  assumes o: "\<not> closed c" "2 \<le> length (curvePoints c)" and s: "1 \<le> S"
  shows "\<exists>pts. getSpacedPoints c S = Inr pts \<and> length pts = S + 1
      \<and> pts ! 0 = curvePoints c ! 0
      \<and> pts ! S = curvePoints c ! (length (curvePoints c) - 1)"
  using getSpacedPoints_ends [OF o(2) s] getPointOnCurve_first [OF o] getPointOnCurve_last [OF o]
  by auto

lemma getSpacedPoints_closed:
  assumes o: "closed c" "2 \<le> length (curvePoints c)" and s: "1 \<le> S"
  shows "\<exists>pts. getSpacedPoints c S = Inr pts \<and> length pts = S + 1
      \<and> pts ! 0 = curvePoints c ! 0 \<and> pts ! S = curvePoints c ! 0"
proof -
  have l: "1 \<le> length (curvePoints c)" using o(2) by simp
  show ?thesis
    using getSpacedPoints_ends [OF o(2) s] getPointOnCurve_closed_first [OF o(1) l]
      getPointOnCurve_closed_last [OF o(1) l]
    by auto
qed

lemma distanceTo_same [simp]: "distanceTo a a = 0"
  by (simp add: distanceTo_zero_iff)

text \<open>
  C3, as the library has it: for every curve with at least 2 control points, sampled with
  \<open>getSpacedPoints(S)\<close> for \<open>S\<close> at least 1, the sampler returns exactly \<open>S + 1\<close>
  points. The first of them is the first control point, and the last of them is the last
  control point of an open curve and the first control point, where the curve ends, of a
  closed one. Over the reals these points are met exactly, so within every positive
  tolerance.
\<close>

theorem spaced_points_of_curve:
  assumes "2 \<le> length (curvePoints c)" and "1 \<le> S" and "0 < tol"
  shows "\<exists>pts. getSpacedPoints c S = Inr pts \<and> length pts = S + 1
      \<and> distanceTo (hd pts) (hd (curvePoints c)) < tol
      \<and> distanceTo (last pts)
           (if closed c then hd (curvePoints c) else last (curvePoints c)) < tol"
proof -
  have "\<exists>pts. getSpacedPoints c S = Inr pts \<and> length pts = S + 1
      \<and> pts ! 0 = curvePoints c ! 0
      \<and> pts ! S = (if closed c then curvePoints c ! 0
                   else curvePoints c ! (length (curvePoints c) - 1))"
    using getSpacedPoints_open [OF _ assms(1,2)] getSpacedPoints_closed [OF _ assms(1,2)]
    by (cases "closed c") simp_all
  then obtain pts where
    pts: "getSpacedPoints c S = Inr pts" "length pts = S + 1"
    "pts ! 0 = curvePoints c ! 0"
    "pts ! S = (if closed c then curvePoints c ! 0
                else curvePoints c ! (length (curvePoints c) - 1))"
    by blast
  have ne: "pts \<noteq> []" "curvePoints c \<noteq> []" using pts(2) assms(1) by auto
  have "hd pts = hd (curvePoints c)" using pts(3) ne by (simp add: hd_conv_nth)
  moreover have "last pts = (if closed c then hd (curvePoints c) else last (curvePoints c))"
    using pts(2,4) ne by (simp add: last_conv_nth hd_conv_nth)
  ultimately show ?thesis using pts(1,2) assms(3) by auto
qed

theorem spaced_points_of_curve_witness:
  "2 \<le> length (curvePoints topCurve) \<and> (1::nat) \<le> 100 \<and> (0::real) < 1 / 10 ^ 9
   \<and> (\<exists>pts. getSpacedPoints topCurve 100 = Inr pts \<and> length pts = 100 + 1
         \<and> distanceTo (hd pts) (Vec3 0 0 0) < 1 / 10 ^ 9
         \<and> distanceTo (last pts) (Vec3 10 0.55 0) < 1 / 10 ^ 9)"
proof -
  have a: "2 \<le> length (curvePoints topCurve)" "(1::nat) \<le> 100" "(0::real) < 1 / 10 ^ 9"
    by (simp_all add: topCurve_def)
  from spaced_points_of_curve [OF a] a show ?thesis
    by (simp add: topCurve_def)
qed

text \<open>
  C3 as stated fails in three ways. \<open>topCurve.getSpacedPoints(100)\<close>, the first sampling
  in \<open>createFishGeometry\<close>, returns 101 points, not 100. The closed curve of the last
  frame, through the last points of the bottom, side and top curves, ends at its first
  control point \<open>(10, - 0.55, 0)\<close>, the bottom, and not at its last one \<open>(10, 0, - 0.05)\<close>.
  And \<open>getSpacedPoints(0)\<close> returns no polyline: it raises a TypeError.
\<close>

theorem spaced_points_count:
  "map_sum id length (getSpacedPoints topCurve 100) = Inr 101
   \<and> map_sum id last (getFramePoints (Vec3 10 0.55 0) (Vec3 10 (- 0.55) 0) (Vec3 10 0 0.05))
       = Inr (Vec3 10 (- 0.55) 0)
   \<and> getSpacedPoints topCurve 0 = Inl TypeError"
proof -
  have a: "\<not> closed topCurve" "2 \<le> length (curvePoints topCurve)" "(1::nat) \<le> 100"
    by (simp_all add: topCurve_def)
  from getSpacedPoints_open [OF a]
  have one: "map_sum id length (getSpacedPoints topCurve 100) = Inr 101" by auto
  let ?c = "\<lparr>curvePoints = [Vec3 10 (- 0.55) 0, Vec3 10 0 0.05, Vec3 10 0.55 0,
                              setZ (Vec3 10 0 0.05) (vz (Vec3 10 0 0.05) * (- 1))],
             closed = True\<rparr>"
  have b: "closed ?c" "2 \<le> length (curvePoints ?c)" "1 \<le> divisions"
    by (simp_all add: divisions_def)
  from getSpacedPoints_closed [OF b] obtain pts where
    pts: "getSpacedPoints ?c divisions = Inr pts" "length pts = divisions + 1"
    "pts ! divisions = Vec3 10 (- 0.55) 0" by auto
  have "pts \<noteq> []" using pts(2) by auto
  then have "last pts = Vec3 10 (- 0.55) 0" using pts(2,3) by (simp add: last_conv_nth)
  then have two: "map_sum id last (getFramePoints (Vec3 10 0.55 0) (Vec3 10 (- 0.55) 0)
      (Vec3 10 0 0.05)) = Inr (Vec3 10 (- 0.55) 0)"
    using pts(1) by (simp add: getFramePoints_def Let_def)
  have three: "getSpacedPoints topCurve 0 = Inl TypeError" by (simp add: getSpacedPoints_def)
  from one two three show ?thesis by blast
qed

subsection \<open>The mesh assembly\<close>

lemma planeIndex_bound:
  "i \<in> set (planeIndex gridX gridY) \<Longrightarrow> i < (gridX + 1) * (gridY + 1)"
proof -
  assume "i \<in> set (planeIndex gridX gridY)"
  then obtain iy ix where r: "iy < gridY" "ix < gridX"
    and i: "i \<in> {ix + (gridX + 1) * iy, ix + (gridX + 1) * (iy + 1),
               (ix + 1) + (gridX + 1) * (iy + 1), (ix + 1) + (gridX + 1) * iy}"
    by (auto simp: planeIndex_def Let_def)
  have "(ix + 1) + (gridX + 1) * (iy + 1) \<le> gridX + (gridX + 1) * gridY"
  proof -
    have "(gridX + 1) * (iy + 1) \<le> (gridX + 1) * gridY" using r(1) by (intro mult_le_mono2) simp
    then show ?thesis using r(2) by simp
  qed
  moreover have "i \<le> (ix + 1) + (gridX + 1) * (iy + 1)" using i by auto
  ultimately show ?thesis by simp
qed

lemma valid_planeWith:
  "(gridX + 1) * (gridY + 1) \<le> length pts \<Longrightarrow> valid (planeWith gridX gridY pts part)"
  using planeIndex_bound [of _ gridX gridY]
  by (fastforce simp: valid_def planeWith_def list_all_iff)

lemma valid_planeWith_empty: "valid (planeWith 0 gridY pts part)"
  by (simp add: valid_def planeWith_def planeIndex_def list_all_iff)

lemma length_concat_same:
  "(\<forall>f \<in> set fs. length f = n) \<Longrightarrow> length (concat fs) = n * length fs"
  by (induction fs) simp_all

lemma valid_bodyGeom:
  assumes "frames \<noteq> []" "\<forall>f \<in> set frames. length f = divisions + 1"
  shows "valid (bodyGeom frames)"
proof -
  have "length frames - 1 + 1 = length frames" using assms(1) by (cases frames) simp_all
  then have "(divisions + 1) * (length frames - 1 + 1) \<le> length (concat frames)"
    using length_concat_same [OF assms(2)] by simp
  then show ?thesis unfolding bodyGeom_def by (rule valid_planeWith)
qed

lemma defined_Inr: "defined r = Inr v \<longleftrightarrow> r = Inr (Some v)"
  by (auto simp: defined_def split: sum.splits option.splits)

lemma bindE_eq_Inr: "bindE r f = Inr y \<longleftrightarrow> (\<exists>x. r = Inr x \<and> f x = Inr y)"
  by (cases r) simp_all

lemma tailSlice_length:
  "tailSlice lastFrame ftp ratio = Inr sl \<Longrightarrow> length sl = length lastFrame"
  unfolding tailSlice_def by (drule collect_length) simp

lemma collect_each:
  "collect f ds = Inr vs \<Longrightarrow> \<forall>k < length ds. f (ds ! k) = Inr (vs ! k)"
proof (induction ds arbitrary: vs)
  case Nil
  then show ?case by simp
next
  case (Cons d ds)
  then obtain v ws where v: "f d = Inr v" and ws: "collect f ds = Inr ws" and vs: "vs = v # ws"
    by (auto simp: bindE_eq_Inr)
  show ?case using v Cons.IH [OF ws] by (auto simp: vs nth_Cons split: nat.splits)
qed

lemma valid_tailGeom:
  assumes "tailGeom frames ftp = Inr g" "\<forall>f \<in> set frames. length f = divisions + 1"
  shows "valid g"
proof -
  from assms(1) obtain lastFrame slices where
    lf: "nthOrUndefined frames (length frames - 1) = Inr (Some lastFrame)"
    and sl: "collect (\<lambda>i. tailSlice lastFrame ftp (real i * (1 / real tailfinSlices)))
                    [0..<tailfinSlices + 1] = Inr slices"
    and g: "g = planeWith divisions tailfinSlices (concat slices) 1"
    by (auto simp: tailGeom_def bindE_eq_Inr defined_Inr)
  have "lastFrame \<in> set frames"
    using lf by (auto simp: nthOrUndefined_def split: if_splits)
  then have len: "length lastFrame = divisions + 1" using assms(2) by simp
  have n: "length slices = tailfinSlices + 1" using collect_length [OF sl] by simp
  have "\<forall>s \<in> set slices. length s = divisions + 1"
  proof
    fix s assume "s \<in> set slices"
    then obtain k where k: "k < length slices" "s = slices ! k" by (auto simp: in_set_conv_nth)
    have "tailSlice lastFrame ftp (real ([0..<tailfinSlices + 1] ! k) * (1 / real tailfinSlices))
        = Inr (slices ! k)"
      using collect_each [OF sl] k(1) n by simp
    from tailSlice_length [OF this] show "length s = divisions + 1" by (simp add: k(2) len)
  qed
  from length_concat_same [OF this] n
  have "(divisions + 1) * (tailfinSlices + 1) \<le> length (concat slices)" by simp
  then show ?thesis unfolding g by (rule valid_planeWith)
qed

lemma length_mapIndexed [simp]: "length (mapIndexed f xs) = length xs"
  by (simp add: mapIndexed_def)

lemma valid_createFin:
  assumes "createFin basePoints contourPoints isTop = Inr g"
  shows "valid g"
proof -
  define n where "n = length contourPoints"
  have "\<exists>pts. g = planeWith ((n - 1) * 2) 1 pts 1 \<and> length pts = n + (n - 1) + (n + (n - 1))"
    using assms unfolding createFin_def Let_def bindE_eq_Inr n_def
    by (auto dest!: collect_length)
  then obtain pts where pts: "g = planeWith ((n - 1) * 2) 1 pts 1"
    "length pts = n + (n - 1) + (n + (n - 1))" by auto
  show ?thesis
  proof (cases "n = 0")
    case True
    then show ?thesis unfolding pts(1) by (simp add: valid_planeWith_empty)
  next
    case False
    then have "((n - 1) * 2 + 1) * (1 + 1) \<le> length pts" using pts(2) by simp
    then show ?thesis unfolding pts(1) by (rule valid_planeWith)
  qed
qed

lemma valid_translate [simp]: "valid (translate g x y z) = valid g"
  by (simp add: valid_def translate_def)

lemma valid_rotateX [simp]: "valid (rotateX g angle) = valid g"
  by (simp add: valid_def rotateX_def)

lemma mergeIndex_bound:
  "\<forall>g \<in> set gs. valid g \<Longrightarrow> i \<in> set (mergeIndex off gs)
   \<Longrightarrow> i < off + sum_list (map (\<lambda>g. length (positions g)) gs)"
proof (induction gs arbitrary: off)
  case Nil
  then show ?case by simp
next
  case (Cons g gs)
  from Cons.prems(2) consider (here) "i \<in> (\<lambda>j. j + off) ` set (index g)"
    | (later) "i \<in> set (mergeIndex (off + length (positions g)) gs)" by auto
  then show ?case
  proof cases
    case here
    then obtain j where j: "j \<in> set (index g)" "i = j + off" by auto
    have "j < length (positions g)" using Cons.prems(1) j(1) by (simp add: valid_def list_all_iff)
    then show ?thesis using j(2) by simp
  next
    case later
    from Cons.IH [OF _ this] Cons.prems(1) show ?thesis by simp
  qed
qed

lemma mergeGeometries_count:
  "length (positions (mergeGeometries gs)) = sum_list (map (\<lambda>g. length (positions g)) gs)"
  by (simp add: mergeGeometries_def length_concat comp_def)

lemma fishParts_valid:
  assumes "fishParts frames tailPoints topPoints bottomPoints dorsalPoints rectPoints pelvicPoints
             = Inr gs"
    and "\<forall>f \<in> set frames. length f = divisions + 1"
  shows "\<forall>g \<in> set gs. valid g"
proof -
  from assms(1) obtain gTail gDorsal gRect gPelvic0 where
    t: "tailGeom frames (fullTail tailPoints) = Inr gTail"
    and d: "createFin topPoints dorsalPoints True = Inr gDorsal"
    and r: "createFin bottomPoints rectPoints False = Inr gRect"
    and p: "createFin bottomPoints pelvicPoints False = Inr gPelvic0"
    and gs: "gs = [bodyGeom frames, gTail, gDorsal, gRect,
                   translate (rotateX (translate gPelvic0 0 0.6 0) (degToRad (- 20))) 0 (- 0.6) 0,
                   translate (rotateX (translate gPelvic0 0 0.6 0) (degToRad 20)) 0 (- 0.6) 0]"
    by (auto simp: fishParts_def bindE_eq_Inr Let_def)
  have "frames \<noteq> []"
    using t by (auto simp: tailGeom_def bindE_eq_Inr defined_Inr nthOrUndefined_def)
  then have "valid (bodyGeom frames)" using assms(2) by (rule valid_bodyGeom)
  moreover have "valid gTail" using t assms(2) by (rule valid_tailGeom)
  moreover have "valid gDorsal" "valid gRect" "valid gPelvic0"
    using d r p by (auto intro: valid_createFin)
  ultimately show ?thesis by (simp add: gs)
qed

text \<open>Every frame that \<open>computeFrames\<close> returns has \<open>divisions + 1\<close> points.\<close>

lemma getFramePoints_length:
  "getFramePoints topPt bottomPt sidePt = Inr f \<Longrightarrow> length f = divisions + 1"
  unfolding getFramePoints_def Let_def by (rule getSpacedPoints_length)

lemma frameLoop_lengths:
  "frameLoop topPoints bottomPoints sidePoints i = Inr fs
   \<Longrightarrow> \<forall>f \<in> set fs. length f = divisions + 1"
proof (induction topPoints bottomPoints sidePoints i arbitrary: fs rule: frameLoop.induct)
  case (1 topPoints bottomPoints sidePoints i)
  show ?case
  proof (cases "i < 10")
    case True
    with "1.prems" obtain f others where
      f: "getFrame topPoints bottomPoints sidePoints i = Inr f"
      and o: "frameLoop topPoints bottomPoints sidePoints (i + 0.05) = Inr others"
      and fs: "fs = f # others"
      by (subst (asm) frameLoop.simps) (auto simp: bindE_eq_Inr)
    have "length f = divisions + 1"
      using f by (auto simp: getFrame_def bindE_eq_Inr dest: getFramePoints_length)
    moreover have "\<forall>f \<in> set others. length f = divisions + 1"
      using "1.IH" [OF True o] .
    ultimately show ?thesis by (simp add: fs)
  next
    case False
    with "1.prems" have "fs = []" by (subst (asm) frameLoop.simps) simp
    then show ?thesis by simp
  qed
qed

lemma computeFrames_lengths:
  assumes "computeFrames topPoints bottomPoints sidePoints = Inr frames"
  shows "\<forall>f \<in> set frames. length f = divisions + 1"
proof -
  from assms obtain middle topPt bottomPt sidePt lastFrame where
    m: "frameLoop topPoints bottomPoints sidePoints 0.05 = Inr middle"
    and l: "getFramePoints topPt bottomPt sidePt = Inr lastFrame"
    and fr: "frames = [replicate (divisions + 1) (Vec3 0 0 0)] @ middle @ [lastFrame]"
    by (auto simp: computeFrames_def bindE_eq_Inr)
  show ?thesis
    using frameLoop_lengths [OF m] getFramePoints_length [OF l] by (auto simp: fr)
qed

text \<open>When the sub-meshes can be built: no lookup in them returns \<open>undefined\<close>.\<close>

lemma tailGeom_defined:
  assumes "frames \<noteq> []" "length (last frames) \<le> length fullTailPoints"
  shows "\<exists>g. tailGeom frames fullTailPoints = Inr g"
proof -
  have lf: "defined (nthOrUndefined frames (length frames - 1)) = Inr (last frames)"
    using assms(1) by (simp add: nthOrUndefined_def last_conv_nth defined_def)
  have "\<exists>sl. tailSlice (last frames) fullTailPoints ratio = Inr sl" for ratio
    unfolding tailSlice_def
    using collect_all [of "[0..<length (last frames)]"
        "\<lambda>idx. bindE (defined (nthOrUndefined fullTailPoints idx))
                  (\<lambda>q. Inr (lerpVectors (last frames ! idx) q ratio))"] assms(2)
    by (auto simp: nthOrUndefined_def defined_def)
  then have "\<forall>i \<in> set [0..<tailfinSlices + 1].
      \<exists>sl. tailSlice (last frames) fullTailPoints (real i * (1 / real tailfinSlices)) = Inr sl"
    by blast
  from collect_all [OF this] obtain slices where
    c: "collect (\<lambda>i. tailSlice (last frames) fullTailPoints (real i * (1 / real tailfinSlices)))
             [0..<tailfinSlices + 1] = Inr slices" by blast
  show ?thesis unfolding tailGeom_def lf bindE_Inr c by simp
qed

lemma createFin_defined:
  assumes "\<forall>p \<in> set contourPoints. \<exists>v. getPoint basePoints (vx p) = Inr (Some v)"
  shows "\<exists>g. createFin basePoints contourPoints isTop = Inr g"
proof -
  have "\<forall>idx \<in> set [0..<length contourPoints].
      \<exists>v. bindE (defined (getPoint basePoints (vx (contourPoints ! idx))))
             (\<lambda>q. Inr (add q (Vec3 0 (- 0.05 * (if isTop then 1 else - 1)) 0))) = Inr v"
  proof
    fix idx assume "idx \<in> set [0..<length contourPoints]"
    then have "contourPoints ! idx \<in> set contourPoints" by simp
    with assms obtain v where "getPoint basePoints (vx (contourPoints ! idx)) = Inr (Some v)"
      by blast
    then show "\<exists>v. bindE (defined (getPoint basePoints (vx (contourPoints ! idx))))
             (\<lambda>q. Inr (add q (Vec3 0 (- 0.05 * (if isTop then 1 else - 1)) 0))) = Inr v"
      by (simp add: defined_def)
  qed
  from collect_all [OF this] obtain basePts0 where
    "collect (\<lambda>idx. bindE (defined (getPoint basePoints (vx (contourPoints ! idx))))
                (\<lambda>q. Inr (add q (Vec3 0 (- 0.05 * (if isTop then 1 else - 1)) 0))))
       [0..<length contourPoints] = Inr basePts0" by blast
  then show ?thesis by (simp add: createFin_def Let_def)
qed

lemma fishParts_defined:
  assumes "frames \<noteq> []" "length (last frames) \<le> length (fullTail tailPoints)"
    and "\<forall>p \<in> set dorsalPoints. \<exists>v. getPoint topPoints (vx p) = Inr (Some v)"
    and "\<forall>p \<in> set rectPoints. \<exists>v. getPoint bottomPoints (vx p) = Inr (Some v)"
    and "\<forall>p \<in> set pelvicPoints. \<exists>v. getPoint bottomPoints (vx p) = Inr (Some v)"
  shows "\<exists>gs. fishParts frames tailPoints topPoints bottomPoints dorsalPoints rectPoints
                 pelvicPoints = Inr gs"
proof -
  from tailGeom_defined [OF assms(1,2)] obtain gTail where
    "tailGeom frames (fullTail tailPoints) = Inr gTail" by blast
  moreover from createFin_defined [OF assms(3)] obtain gDorsal where
    "createFin topPoints dorsalPoints True = Inr gDorsal" by blast
  moreover from createFin_defined [OF assms(4)] obtain gRect where
    "createFin bottomPoints rectPoints False = Inr gRect" by blast
  moreover from createFin_defined [OF assms(5)] obtain gPelvic0 where
    "createFin bottomPoints pelvicPoints False = Inr gPelvic0" by blast
  ultimately show ?thesis by (simp add: fishParts_def Let_def)
qed

text \<open>
  C8: when the sub-meshes are built from frames of \<open>divisions + 1\<close> points each, the
  merged mesh has as many vertices as the body, the tail fin and the four other fins
  together, and every entry of its index is below that number.
\<close>

theorem merged_fish_mesh:
  assumes "\<forall>f \<in> set frames. length f = divisions + 1"
    and "fishParts frames tailPoints topPoints bottomPoints dorsalPoints rectPoints pelvicPoints
           = Inr gs"
  shows "length (positions (mergeGeometries gs)) = sum_list (map (\<lambda>g. length (positions g)) gs)
     \<and> (\<forall>i \<in> set (index (mergeGeometries gs)). i < length (positions (mergeGeometries gs)))"
proof -
  have v: "\<forall>g \<in> set gs. valid g" using assms(2,1) by (rule fishParts_valid)
  have "\<forall>i \<in> set (index (mergeGeometries gs)). i < length (positions (mergeGeometries gs))"
    using mergeIndex_bound [OF v, of _ 0]
    by (simp add: mergeGeometries_count) (simp add: mergeGeometries_def)
  then show ?thesis using mergeGeometries_count by blast
qed

theorem merged_fish_mesh_witness:
  "list_all (\<lambda>f. length f = divisions + 1)
     [replicate (divisions + 1) (Vec3 0 0 0), replicate (divisions + 1) (Vec3 10 0 0)]
   \<and> (\<exists>gs. fishParts [replicate (divisions + 1) (Vec3 0 0 0), replicate (divisions + 1) (Vec3 10 0 0)]
              (replicate 101 (Vec3 12 0 0)) [Vec3 0 1 0, Vec3 10 1 0] [Vec3 0 (- 1) 0, Vec3 10 (- 1) 0]
              [Vec3 3 2 0, Vec3 7 1 0] [Vec3 6 (- 1) 0, Vec3 7 (- 1) 0]
              [Vec3 2 (- 1) 0, Vec3 4 (- 1) 0] = Inr gs
         \<and> length (positions (mergeGeometries gs))
             = sum_list (map (\<lambda>g. length (positions g)) gs)
         \<and> (\<forall>i \<in> set (index (mergeGeometries gs)).
               i < length (positions (mergeGeometries gs))))"
proof -
  have a: "\<forall>f \<in> set [replicate (divisions + 1) (Vec3 0 0 0),
                       replicate (divisions + 1) (Vec3 10 0 0)]. length f = divisions + 1"
    by simp
  have "\<exists>gs. fishParts [replicate (divisions + 1) (Vec3 0 0 0), replicate (divisions + 1) (Vec3 10 0 0)]
              (replicate 101 (Vec3 12 0 0)) [Vec3 0 1 0, Vec3 10 1 0] [Vec3 0 (- 1) 0, Vec3 10 (- 1) 0]
              [Vec3 3 2 0, Vec3 7 1 0] [Vec3 6 (- 1) 0, Vec3 7 (- 1) 0]
              [Vec3 2 (- 1) 0, Vec3 4 (- 1) 0] = Inr gs"
    by (rule fishParts_defined) (simp_all add: fullTail_def divisions_def)
  then obtain gs where
    gs: "fishParts [replicate (divisions + 1) (Vec3 0 0 0), replicate (divisions + 1) (Vec3 10 0 0)]
              (replicate 101 (Vec3 12 0 0)) [Vec3 0 1 0, Vec3 10 1 0] [Vec3 0 (- 1) 0, Vec3 10 (- 1) 0]
              [Vec3 3 2 0, Vec3 7 1 0] [Vec3 6 (- 1) 0, Vec3 7 (- 1) 0]
              [Vec3 2 (- 1) 0, Vec3 4 (- 1) 0] = Inr gs" by blast
  have "list_all (\<lambda>f. length f = divisions + 1)
     [replicate (divisions + 1) (Vec3 0 0 0), replicate (divisions + 1) (Vec3 10 0 0)]"
    by simp
  with merged_fish_mesh [OF a gs] gs show ?thesis by blast
qed

text \<open>
  The frames that \<open>createFishGeometry\<close> passes on are those of \<open>computeFrames\<close>, so the
  mesh it returns has every entry of its index below its vertex count.
\<close>

lemma createFishGeometry_valid:
  assumes "createFishGeometry = Inr g"
  shows "valid g"
proof -
  from assms obtain topPoints bottomPoints sidePoints frames tailPoints dorsalPoints rectPoints
    pelvicPoints gs where
    fr: "computeFrames topPoints bottomPoints sidePoints = Inr frames"
    and gs: "fishParts frames tailPoints topPoints bottomPoints dorsalPoints rectPoints
               pelvicPoints = Inr gs"
    and g: "g = mergeGeometries gs"
    unfolding createFishGeometry_def bindE_eq_Inr by blast
  have v: "\<forall>g \<in> set gs. valid g"
    using gs computeFrames_lengths [OF fr] by (rule fishParts_valid)
  have "\<forall>i \<in> set (index (mergeGeometries gs)). i < length (positions (mergeGeometries gs))"
    using mergeIndex_bound [OF v, of _ 0]
    by (simp add: mergeGeometries_count) (simp add: mergeGeometries_def)
  then show ?thesis by (simp add: valid_def g list_all_iff)
qed

end
